theory Spec2Isabelle
  imports Complex_Main "HOL-Library.Sublist"
begin

section \<open>JavaScript runtime notions used by the components\<close>

text \<open>
  Errors are values.  \<open>TypeError\<close> is what the runtime throws on a property read from
  \<open>undefined\<close> or \<open>null\<close>, on calling a non-function, and (the modules are ES modules,
  hence strict code) on a property write to a primitive.  \<open>SyntaxError\<close> is what
  \<open>JSON.parse\<close> throws.
\<close>

datatype js_error = TypeError | SyntaxError

text \<open>\<open>try { body } catch (e) { handler }\<close>.\<close>

definition try_catch :: "(js_error + 'a) \<Rightarrow> (js_error \<Rightarrow> js_error + 'a) \<Rightarrow> js_error + 'a" where
  "try_catch body handler = (case body of Inl e \<Rightarrow> handler e | Inr v \<Rightarrow> Inr v)"

text \<open>
  \<open>s.split(sep)\<close> for a one-character separator: the result is never empty, the empty
  string gives one empty segment.
\<close>

fun js_split :: "char \<Rightarrow> string \<Rightarrow> string list" where
  "js_split sep [] = [[]]"
| "js_split sep (c # cs) =
     (if c = sep then [] # js_split sep cs
      else (case js_split sep cs of [] \<Rightarrow> [[c]] | w # ws \<Rightarrow> (c # w) # ws))"

text \<open>\<open>xs.join(sep)\<close> on an array of strings.\<close>

fun js_join :: "string \<Rightarrow> string list \<Rightarrow> string" where
  "js_join sep [] = []"
| "js_join sep [x] = x"
| "js_join sep (x # y # ys) = x @ sep @ js_join sep (y # ys)"

text \<open>
  \<open>s.lastIndexOf(c)\<close>: the greatest index holding \<open>c\<close>, or \<open>-1\<close>.  The greatest index
  is found from the end: it leaves behind it the characters after the last \<open>c\<close>.
\<close>

definition lastIndexOf :: "char \<Rightarrow> string \<Rightarrow> int" where
  "lastIndexOf c s =
     (if c \<in> set s then int (length s) - 1 - int (length (takeWhile (\<lambda>x. x \<noteq> c) (rev s)))
      else - 1)"

text \<open>\<open>s.replace(/^\//, '')\<close>: one leading slash is removed.\<close>

fun strip_leading_slash :: "string \<Rightarrow> string" where
  "strip_leading_slash [] = []"
| "strip_leading_slash (c # cs) = (if c = CHR ''/'' then cs else c # cs)"

text \<open>
  \<open>Math.min(...xs)\<close> over array lengths.  With no argument the result is \<open>Infinity\<close>,
  here \<open>None\<close>.
\<close>

fun math_min :: "nat list \<Rightarrow> nat option" where
  "math_min [] = None"
| "math_min (x # xs) = (case math_min xs of None \<Rightarrow> Some x | Some m \<Rightarrow> Some (min x m))"

text \<open>
  The decimal text of a non-negative integer, as a template literal prints it (array
  indices stay far below the magnitude where the runtime switches to exponent notation).
\<close>

definition digit_char :: "nat \<Rightarrow> char" where
  "digit_char n = ''0123456789'' ! n"

fun number_to_string :: "nat \<Rightarrow> string" where
  "number_to_string n =
     (if n < 10 then [digit_char n] else number_to_string (n div 10) @ [digit_char (n mod 10)])"

declare number_to_string.simps [simp del]

text \<open>
  An object created by a literal inherits from \<open>Object.prototype\<close>.  Reading one of the
  names below from such an object that has no own property of that name yields the
  inherited built-in (a function, or for \<open>__proto__\<close> the prototype object itself), which
  is truthy and has no \<open>children\<close> property.
\<close>

definition object_prototype_keys :: "string list" where
  "object_prototype_keys =
     [''constructor'', ''__defineGetter__'', ''__defineSetter__'', ''hasOwnProperty'',
      ''__lookupGetter__'', ''__lookupSetter__'', ''isPrototypeOf'', ''propertyIsEnumerable'',
      ''toString'', ''valueOf'', ''__proto__'', ''toLocaleString'']"

text \<open>
  A \<open>Map\<close> keeps its keys in insertion order: an association list with distinct keys.
  \<open>set\<close> on a present key replaces the value in place.
\<close>

type_synonym ('k, 'v) js_map = "('k \<times> 'v) list"

definition map_get :: "('k, 'v) js_map \<Rightarrow> 'k \<Rightarrow> 'v option" where
  "map_get m k = map_of m k"

fun map_set :: "('k, 'v) js_map \<Rightarrow> 'k \<Rightarrow> 'v \<Rightarrow> ('k, 'v) js_map" where
  "map_set [] k v = [(k, v)]"
| "map_set ((k', v') # m) k v =
     (if k' = k then (k, v) # m else (k', v') # map_set m k v)"

definition map_keys :: "('k, 'v) js_map \<Rightarrow> 'k list" where
  "map_keys m = map fst m"


section \<open>File-change modal\<close>

record FileChange =
  tool :: string
  type :: string
  path :: string
  timestamp :: string
  content :: "string option"
  target_content :: "string option"
  diff :: "string option"

text \<open>The body of the \<open>forEach\<close> in \<open>fileStatusMap\<close>, and the memoised map itself.\<close>

definition fileStatusMap_step :: "FileChange \<Rightarrow> (string, string) js_map \<Rightarrow> (string, string) js_map" where
  "fileStatusMap_step c m =
     (let current = map_get m (path c)
      in if current = Some ''write'' then m else map_set m (path c) (type c))"

definition fileStatusMap :: "FileChange list \<Rightarrow> (string, string) js_map" where
  "fileStatusMap changes = fold fileStatusMap_step changes []"

text \<open>
  The loop that collects the common leading segments.  Both \<open>buildFileTree\<close> and
  \<open>getCommonPrefix\<close> contain it, with the same text up to the names of the variables.
  The guard \<open>i < minLen - 1\<close> keeps every index read in range: \<open>minLen\<close> is the least
  length of a split path.
\<close>

function commonPrefix_loop :: "string list list \<Rightarrow> nat \<Rightarrow> nat \<Rightarrow> string list \<Rightarrow> string list" where
  "commonPrefix_loop splitPaths minLen i commonPrefix =
     (if int i < int minLen - 1 then
        (let segment = splitPaths ! 0 ! i
         in if list_all (\<lambda>p. p ! i = segment) splitPaths
            then commonPrefix_loop splitPaths minLen (i + 1) (commonPrefix @ [segment])
            else commonPrefix)
      else commonPrefix)"
  by pat_completeness auto
termination
  by (relation "measure (\<lambda>(splitPaths, minLen, i, commonPrefix). minLen - i)") auto

declare commonPrefix_loop.simps [simp del]

text \<open>
  Step 1 of \<open>buildFileTree\<close>, for a non-empty array of paths: the common segments.  With
  no path at all \<open>minLen\<close> would be \<open>Infinity\<close> and the first loop round would read
  \<open>splitPaths[0][0]\<close> from \<open>undefined\<close>; both callers return before that.
\<close>

definition commonSegments :: "string list \<Rightarrow> js_error + string list" where
  "commonSegments paths =
     (let splitPaths = map (js_split CHR ''/'') paths
      in case math_min (map length splitPaths) of
           None \<Rightarrow> Inl TypeError
         | Some minLen \<Rightarrow> Inr (commonPrefix_loop splitPaths minLen 0 []))"


text \<open>
  The tree: a \<open>Record<string, TreeNode>\<close> is an object literal, here the list of its own
  properties in insertion order.
\<close>

datatype TreeNode =
  TreeNode (name: string) (fullPath: "string option") (status: "string option")
    (children: "(string \<times> TreeNode) list") (isOpen: bool)

text \<open>
  What \<open>current[part]\<close> finds.  Own properties come first, then \<open>Object.prototype\<close>: its
  built-ins, and the properties that \<open>buildFileTree\<close> itself has written there (it does
  so when the last part of a path is \<open>__proto__\<close>).  The latter are kept in an explicit
  global state, a map from property name to the string stored (\<open>None\<close> for \<open>undefined\<close>).
\<close>

type_synonym object_prototype = "(string, string option) js_map"

datatype property =
    Node TreeNode
  | PrototypeObject
  | Builtin
  | Primitive "string option"
  | Missing

definition get_property :: "object_prototype \<Rightarrow> (string \<times> TreeNode) list \<Rightarrow> string \<Rightarrow> property" where
  "get_property proto current part =
     (case map_of current part of
        Some n \<Rightarrow> Node n
      | None \<Rightarrow>
          if part = ''__proto__'' then PrototypeObject
          else if part \<in> set object_prototype_keys then Builtin
          else (case map_get proto part of Some v \<Rightarrow> Primitive v | None \<Rightarrow> Missing))"

fun truthy_property :: "property \<Rightarrow> bool" where
  "truthy_property (Node n) = True"
| "truthy_property PrototypeObject = True"
| "truthy_property Builtin = True"
| "truthy_property (Primitive v) = (case v of None \<Rightarrow> False | Some s \<Rightarrow> s \<noteq> [])"
| "truthy_property Missing = False"

text \<open>
  The inner \<open>parts.forEach\<close>, from a \<open>current\<close> that is an object.  Per part:
  \<^item> a falsy \<open>current[part]\<close> is replaced by a fresh node;
  \<^item> on the last part \<open>fullPath\<close> and \<open>status\<close> are written to \<open>current[part]\<close>: to the
    node, to \<open>Object.prototype\<close> when the part is \<open>__proto__\<close>, to a built-in function
    (a write this function never reads back, not recorded here), and with a
    \<open>TypeError\<close> when \<open>current[part]\<close> is an inherited string;
  \<^item> \<open>current\<close> becomes \<open>current[part].children\<close>, which is \<open>undefined\<close> unless
    \<open>current[part]\<close> is a node; the next round then throws on \<open>current[part]\<close>.
  The result is the updated record, or the error, together with \<open>Object.prototype\<close>;
  \<open>p\<close> is the path being inserted and \<open>st\<close> is \<open>fileMap.get(path)\<close>.
\<close>

fun insert_parts ::
  "string \<Rightarrow> string option \<Rightarrow> string list \<Rightarrow> object_prototype \<Rightarrow> (string \<times> TreeNode) list
   \<Rightarrow> (js_error + (string \<times> TreeNode) list) \<times> object_prototype" where
  "insert_parts p st [] proto current = (Inr current, proto)"
| "insert_parts p st (part # rest) proto current =
     (let found = get_property proto current part;
          target = (if truthy_property found then found
                    else Node (TreeNode part None None [] True))
      in case target of
           Node n \<Rightarrow>
             (let n1 = (if rest = [] then TreeNode (name n) (Some p) st (children n) (isOpen n)
                        else n)
              in case insert_parts p st rest proto (children n1) of
                   (Inl e, proto') \<Rightarrow> (Inl e, proto')
                 | (Inr ch, proto') \<Rightarrow>
                     (Inr (map_set current part
                            (TreeNode (name n1) (fullPath n1) (status n1) ch (isOpen n1))),
                      proto'))
         | PrototypeObject \<Rightarrow>
             (if rest = []
              then (Inr current, map_set (map_set proto ''fullPath'' (Some p)) ''status'' st)
              else (Inl TypeError, proto))
         | Builtin \<Rightarrow> (if rest = [] then (Inr current, proto) else (Inl TypeError, proto))
         | Primitive v \<Rightarrow> (Inl TypeError, proto)
         | Missing \<Rightarrow> (Inl TypeError, proto))"

text \<open>The outer \<open>paths.forEach\<close>; \<open>n\<close> is \<open>prefixString.length\<close>.\<close>

fun insert_paths ::
  "(string, string) js_map \<Rightarrow> nat \<Rightarrow> string list \<Rightarrow> object_prototype \<Rightarrow> (string \<times> TreeNode) list
   \<Rightarrow> (js_error + (string \<times> TreeNode) list) \<times> object_prototype" where
  "insert_paths fileMap n [] proto tree = (Inr tree, proto)"
| "insert_paths fileMap n (p # ps) proto tree =
     (let relativePath = strip_leading_slash (drop n p);
          parts = js_split CHR ''/'' relativePath
      in if length parts = 1 \<and> parts ! 0 = []
         then insert_paths fileMap n ps proto tree
         else (case insert_parts p (map_get fileMap p) parts proto tree of
                 (Inl e, proto') \<Rightarrow> (Inl e, proto')
               | (Inr tree', proto') \<Rightarrow> insert_paths fileMap n ps proto' tree'))"

record FileTree =
  root :: "(string \<times> TreeNode) list"
  prefixStr :: string

definition buildFileTree ::
  "(string, string) js_map \<Rightarrow> object_prototype \<Rightarrow> (js_error + FileTree) \<times> object_prototype" where
  "buildFileTree fileMap proto =
     (let paths = map_keys fileMap
      in if length paths = 0 then (Inr \<lparr>root = [], prefixStr = []\<rparr>, proto)
         else (case commonSegments paths of
                 Inl e \<Rightarrow> (Inl e, proto)
               | Inr commonPrefix \<Rightarrow>
                   (let prefixString = js_join ''/'' commonPrefix
                    in case insert_paths fileMap (length prefixString) paths proto [] of
                         (Inl e, proto') \<Rightarrow> (Inl e, proto')
                       | (Inr r, proto') \<Rightarrow> (Inr \<lparr>root = r, prefixStr = prefixString\<rparr>, proto'))))"

text \<open>The prefix that \<open>buildFileTree\<close> computes in its step 1, before it builds the tree.\<close>

definition buildFileTree_prefix :: "string list \<Rightarrow> js_error + string" where
  "buildFileTree_prefix paths =
     (case commonSegments paths of
        Inl e \<Rightarrow> Inl e
      | Inr commonPrefix \<Rightarrow> Inr (js_join ''/'' commonPrefix))"


section \<open>One-shot details modal and diff viewer\<close>

definition getCommonPrefix :: "string list \<Rightarrow> js_error + string" where
  "getCommonPrefix strs =
     (if length strs = 0 then Inr []
      else if length strs = 1 then
        (let lastSlash = lastIndexOf CHR ''/'' (strs ! 0)
         in Inr (if lastSlash > 0 then take (nat (lastSlash + 1)) (strs ! 0) else []))
      else (case commonSegments strs of
              Inl e \<Rightarrow> Inl e
            | Inr commonParts \<Rightarrow>
                Inr (if length commonParts > 0 then js_join ''/'' commonParts @ ''/'' else [])))"

datatype file_status = perfect | modified | replaced | deleted

record FileStat =
  path :: string
  score :: real
  status :: file_status
  total_lines :: "int option"
  retained_lines :: "int option"
  session_content :: "string option"
  current_content :: "string option"

text \<open>\<open>displayScore\<close> in \<open>OneShotDiffViewer\<close> and in \<open>OneShotDetailsModal\<close>.\<close>

definition displayScore_DiffViewer :: "FileStat \<Rightarrow> real" where
  "displayScore_DiffViewer file =
     (if total_lines file = Some 0 \<and> retained_lines file = Some 0 then 100 else score file)"

definition displayScore_DetailsModal :: "FileStat \<Rightarrow> real" where
  "displayScore_DetailsModal selectedFile =
     (if total_lines selectedFile = Some 0 \<and> retained_lines selectedFile = Some 0 then 100
      else score selectedFile)"



section \<open>Token-usage chart\<close>

text \<open>
  The values \<open>JSON.parse\<close> can return, and \<open>undefined\<close>, which a property read adds.
\<close>

datatype js_value =
    JUndefined
  | JNull
  | JBool bool
  | JNum real
  | JStr string
  | JArr "js_value list"
  | JObj "(string \<times> js_value) list"

fun truthy :: "js_value \<Rightarrow> bool" where
  "truthy JUndefined = False"
| "truthy JNull = False"
| "truthy (JBool b) = b"
| "truthy (JNum x) = (x \<noteq> 0)"
| "truthy (JStr s) = (s \<noteq> [])"
| "truthy (JArr xs) = True"
| "truthy (JObj kvs) = True"

text \<open>
  \<open>h.k\<close> for the property names read from a history entry (\<open>input\<close>, \<open>output\<close>,
  \<open>total\<close>, \<open>timestamp\<close>; none of them is inherited): a \<open>TypeError\<close> on \<open>null\<close> and
  \<open>undefined\<close>, the own property of an object, \<open>undefined\<close> otherwise.
\<close>

fun get_member :: "js_value \<Rightarrow> string \<Rightarrow> js_error + js_value" where
  "get_member JUndefined k = Inl TypeError"
| "get_member JNull k = Inl TypeError"
| "get_member (JObj kvs) k = Inr (case map_of kvs k of Some v \<Rightarrow> v | None \<Rightarrow> JUndefined)"
| "get_member v k = Inr JUndefined"

text \<open>\<open>v || 0\<close>.\<close>

definition or_zero :: "js_value \<Rightarrow> js_value" where
  "or_zero v = (if truthy v then v else JNum 0)"

text \<open>
  \<open>history.map(f)\<close> where \<open>history\<close> came out of \<open>JSON.parse\<close>: only an array has a
  callable \<open>map\<close>; the callback gets the entry and its index, and its exception ends
  the mapping.
\<close>

fun map_from :: "(js_value \<Rightarrow> nat \<Rightarrow> js_error + 'a) \<Rightarrow> nat \<Rightarrow> js_value list \<Rightarrow> js_error + 'a list" where
  "map_from f i [] = Inr []"
| "map_from f i (h # hs) =
     (case f h i of
        Inl e \<Rightarrow> Inl e
      | Inr y \<Rightarrow> (case map_from f (i + 1) hs of Inl e \<Rightarrow> Inl e | Inr ys \<Rightarrow> Inr (y # ys)))"

fun history_map :: "js_value \<Rightarrow> (js_value \<Rightarrow> nat \<Rightarrow> js_error + 'a) \<Rightarrow> js_error + 'a list" where
  "history_map (JArr es) f = map_from f 0 es"
| "history_map v f = Inl TypeError"

text \<open>
  Of a session, the fields that the modelled code reads (\<open>id\<close> is \<open>session_id\<close> here,
  since \<open>id\<close> is the identity function of the logic).
\<close>

record Session =
  session_id :: string
  file_change_count :: "int option"
  token_usage_history :: "string option"

text \<open>A chart point \<open>{name, input, output, total, time}\<close>.\<close>

record ChartPoint =
  point_name :: string
  point_input :: js_value
  point_output :: js_value
  point_total :: js_value
  point_time :: string

text \<open>
  The callbacks of the two \<open>chartData\<close> computations.  \<open>toLocaleTimeString\<close> stands for
  \<open>new Date(x).toLocaleTimeString()\<close>, which throws when \<open>x\<close> is an object that has no
  primitive value (one with a non-callable \<open>toString\<close>, say), and \<open>t\<close> for the
  translation function; both belong to the environment.
\<close>

definition point_SessionStats ::
  "(js_value \<Rightarrow> js_error + string) \<Rightarrow> js_value \<Rightarrow> nat \<Rightarrow> js_error + ChartPoint" where
  "point_SessionStats toLocaleTimeString h i =
     (case get_member h ''input'' of Inl e \<Rightarrow> Inl e | Inr h_input \<Rightarrow>
     (case get_member h ''output'' of Inl e \<Rightarrow> Inl e | Inr h_output \<Rightarrow>
     (case get_member h ''total'' of Inl e \<Rightarrow> Inl e | Inr h_total \<Rightarrow>
     (case get_member h ''timestamp'' of Inl e \<Rightarrow> Inl e | Inr h_timestamp \<Rightarrow>
     (case toLocaleTimeString h_timestamp of Inl e \<Rightarrow> Inl e | Inr time_text \<Rightarrow>
        Inr \<lparr>point_name = ''Turn '' @ number_to_string (i + 1),
             point_input = h_input,
             point_output = h_output,
             point_total = h_total,
             point_time = time_text\<rparr>)))))"

definition point_SessionAnalytics ::
  "(string \<Rightarrow> string) \<Rightarrow> (js_value \<Rightarrow> js_error + string) \<Rightarrow> js_value \<Rightarrow> nat
   \<Rightarrow> js_error + ChartPoint" where
  "point_SessionAnalytics t toLocaleTimeString h i =
     (case get_member h ''input'' of Inl e \<Rightarrow> Inl e | Inr h_input \<Rightarrow>
     (case get_member h ''output'' of Inl e \<Rightarrow> Inl e | Inr h_output \<Rightarrow>
     (case get_member h ''total'' of Inl e \<Rightarrow> Inl e | Inr h_total \<Rightarrow>
     (case get_member h ''timestamp'' of Inl e \<Rightarrow> Inl e | Inr h_timestamp \<Rightarrow>
     (case (if truthy h_timestamp then toLocaleTimeString h_timestamp else Inr []) of
        Inl e \<Rightarrow> Inl e
      | Inr time_text \<Rightarrow>
        Inr \<lparr>point_name = t ''analytics.turn'' @ '' '' @ number_to_string (i + 1),
             point_input = or_zero h_input,
             point_output = or_zero h_output,
             point_total = or_zero h_total,
             point_time = time_text\<rparr>)))))"

text \<open>
  \<open>chartData\<close> of \<open>SessionStatsModal\<close> and of \<open>SessionAnalyticsModal\<close>.  \<open>JSON_parse\<close> is
  the runtime's parser, \<open>None\<close> where it throws its \<open>SyntaxError\<close>.  The result is a sum
  so that an exception leaving the computation would show.
\<close>

definition chartData_SessionStats ::
  "(string \<Rightarrow> js_value option) \<Rightarrow> (js_value \<Rightarrow> js_error + string) \<Rightarrow> Session
   \<Rightarrow> js_error + ChartPoint list" where
  "chartData_SessionStats JSON_parse toLocaleTimeString session =
     (case token_usage_history session of
        None \<Rightarrow> Inr []
      | Some s \<Rightarrow>
          if s = [] then Inr []
          else try_catch
                 (case JSON_parse s of
                    None \<Rightarrow> Inl SyntaxError
                  | Some history \<Rightarrow> history_map history (point_SessionStats toLocaleTimeString))
                 (\<lambda>e. Inr []))"

definition chartData_SessionAnalytics ::
  "(string \<Rightarrow> js_value option) \<Rightarrow> (string \<Rightarrow> string) \<Rightarrow> (js_value \<Rightarrow> js_error + string)
   \<Rightarrow> Session \<Rightarrow> js_error + ChartPoint list" where
  "chartData_SessionAnalytics JSON_parse t toLocaleTimeString session =
     (case token_usage_history session of
        None \<Rightarrow> Inr []
      | Some s \<Rightarrow>
          if s = [] then Inr []
          else try_catch
                 (case JSON_parse s of
                    None \<Rightarrow> Inl SyntaxError
                  | Some history \<Rightarrow> history_map history (point_SessionAnalytics t toLocaleTimeString))
                 (\<lambda>e. Inr []))"


section \<open>Tag manager\<close>

text \<open>
  A tag \<open>{id, name, color}\<close> and the state cells of the component; \<open>tagsChanged\<close> counts
  the calls of the \<open>onTagsChange\<close> callback.
\<close>

record Tag =
  tag_id :: nat
  tag_name :: string
  color :: string

record TagManager =
  tags :: "Tag list"
  isAdding :: bool
  newTagName :: string
  tagsChanged :: nat

datatype api_outcome = Fulfilled | Rejected

text \<open>
  \<open>handleAddTag\<close> and \<open>handleRemoveTag\<close>.  The name is the \<open>newTagName\<close> the handler
  closed over, \<open>now\<close> is \<open>Date.now()\<close>, the outcome is how the awaited API call settles,
  and the state is the one the functional updates are applied to.  \<open>ws\<close> says which
  characters \<open>trim\<close> removes: a name made of such characters only is blank, and the
  handler returns before the call.
\<close>

definition handleAddTag :: "(char \<Rightarrow> bool) \<Rightarrow> string \<Rightarrow> nat \<Rightarrow> api_outcome \<Rightarrow> TagManager \<Rightarrow> TagManager" where
  "handleAddTag ws name0 now outcome s =
     (if list_all ws name0 then s
      else (case outcome of
              Rejected \<Rightarrow> s
            | Fulfilled \<Rightarrow>
                s\<lparr>tags := tags s @ [\<lparr>tag_id = now, tag_name = name0, color = ''blue''\<rparr>],
                  newTagName := [],
                  isAdding := False,
                  tagsChanged := tagsChanged s + 1\<rparr>))"

definition handleRemoveTag :: "string \<Rightarrow> api_outcome \<Rightarrow> TagManager \<Rightarrow> TagManager" where
  "handleRemoveTag tagName outcome s =
     (case outcome of
        Rejected \<Rightarrow> s
      | Fulfilled \<Rightarrow>
          s\<lparr>tags := filter (\<lambda>t. tag_name t \<noteq> tagName) (tags s),
            tagsChanged := tagsChanged s + 1\<rparr>)"



section \<open>Project details: one-shot statistics\<close>

record OneShotStats =
  overall_score :: real
  file_count :: int
  file_stats :: "FileStat list"

text \<open>
  The component state: the \<open>useState\<close> cells that the statistics loading touches, the
  \<open>autoLoadTriggered\<close> ref, and three pieces of history that the program leaves
  implicit: the statistics requests that have not settled yet, every request issued,
  and every write of a result (the last two only serve to state properties).  The two
  \<open>Record\<close> objects are maps of their own properties.
\<close>

record ProjectDetails =
  loading :: bool
  error :: "string option"
  sessions :: "Session list"
  autoLoadTriggered :: bool
  oneShotStats :: "string \<rightharpoonup> OneShotStats"
  loadingStats :: "string \<rightharpoonup> bool"
  inflight :: "string list"
  requested :: "string list"
  written :: "string list"

definition initial :: ProjectDetails where
  "initial =
     \<lparr>loading = True, error = None, sessions = [], autoLoadTriggered = False,
      oneShotStats = Map.empty, loadingStats = Map.empty,
      inflight = [], requested = [], written = []\<rparr>"

text \<open>
  \<open>oneShotStats[sessionId]\<close> and \<open>loadingStats[sessionId]\<close> as conditions: an own
  property decides (a statistics object is truthy, a flag is itself); without one, a
  name of \<open>Object.prototype\<close> finds the inherited built-in, which is truthy.
\<close>

definition has_stats :: "(string \<rightharpoonup> OneShotStats) \<Rightarrow> string \<Rightarrow> bool" where
  "has_stats m k = (case m k of Some v \<Rightarrow> True | None \<Rightarrow> k \<in> set object_prototype_keys)"

definition is_loading :: "(string \<rightharpoonup> bool) \<Rightarrow> string \<Rightarrow> bool" where
  "is_loading m k = (case m k of Some b \<Rightarrow> b | None \<Rightarrow> k \<in> set object_prototype_keys)"

text \<open>
  \<open>loadOneShotStats\<close> up to its \<open>await\<close>.  The callback closes over the mappings of the
  render that created it (\<open>render\<close>); its updates are functional and apply to the state
  \<open>s\<close> of the moment.
\<close>

definition loadOneShotStats :: "ProjectDetails \<Rightarrow> string \<Rightarrow> ProjectDetails \<Rightarrow> ProjectDetails" where
  "loadOneShotStats render sessionId s =
     (if is_loading (loadingStats render) sessionId \<or> has_stats (oneShotStats render) sessionId
      then s
      else s\<lparr>loadingStats := (loadingStats s)(sessionId \<mapsto> True),
             inflight := inflight s @ [sessionId],
             requested := requested s @ [sessionId]\<rparr>)"

text \<open>The update \<open>prev => ({...prev, [sessionId]: stats})\<close> of the result mapping.\<close>

definition setOneShotStats_result ::
  "(string \<rightharpoonup> OneShotStats) \<Rightarrow> string \<Rightarrow> OneShotStats \<Rightarrow> (string \<rightharpoonup> OneShotStats)" where
  "setOneShotStats_result prev sessionId stats = prev(sessionId \<mapsto> stats)"

text \<open>The rest of \<open>loadOneShotStats\<close>, once the request has settled.\<close>

definition loadOneShotStats_fulfilled :: "string \<Rightarrow> OneShotStats \<Rightarrow> ProjectDetails \<Rightarrow> ProjectDetails" where
  "loadOneShotStats_fulfilled sessionId stats s =
     s\<lparr>oneShotStats := setOneShotStats_result (oneShotStats s) sessionId stats,
       written := written s @ [sessionId],
       loadingStats := (loadingStats s)(sessionId \<mapsto> False),
       inflight := remove1 sessionId (inflight s)\<rparr>"

definition loadOneShotStats_rejected :: "string \<Rightarrow> ProjectDetails \<Rightarrow> ProjectDetails" where
  "loadOneShotStats_rejected sessionId s =
     s\<lparr>loadingStats := (loadingStats s)(sessionId \<mapsto> False),
       inflight := remove1 sessionId (inflight s)\<rparr>"

text \<open>\<open>(s.file_change_count || 0) > 0\<close>.\<close>

definition has_file_changes :: "Session \<Rightarrow> bool" where
  "has_file_changes s = ((case file_change_count s of None \<Rightarrow> 0 | Some n \<Rightarrow> n) > 0)"

text \<open>
  The effect "Auto-Calculate One Shot Stats".  Every call in the \<open>forEach\<close> goes through
  the one callback of the render the effect belongs to, whose state is \<open>s\<close>.
\<close>

definition autoCalc_effect :: "ProjectDetails \<Rightarrow> ProjectDetails" where
  "autoCalc_effect s =
     (if \<not> loading s \<and> length (sessions s) > 0 \<and> \<not> autoLoadTriggered s then
        (let sessionsWithChanges = filter has_file_changes (sessions s)
         in fold (\<lambda>session. loadOneShotStats s (session_id session)) sessionsWithChanges
              (s\<lparr>autoLoadTriggered := True\<rparr>))
      else s)"

text \<open>The effect "Initial Load" and the three continuations of its promise.\<close>

definition initialLoad_effect :: "ProjectDetails \<Rightarrow> ProjectDetails" where
  "initialLoad_effect s = s\<lparr>loading := True, error := None, autoLoadTriggered := False\<rparr>"

definition initialLoad_then :: "Session list \<Rightarrow> ProjectDetails \<Rightarrow> ProjectDetails" where
  "initialLoad_then sessionsData s = s\<lparr>sessions := sessionsData\<rparr>"

definition initialLoad_catch :: "string \<Rightarrow> ProjectDetails \<Rightarrow> ProjectDetails" where
  "initialLoad_catch message s = s\<lparr>error := Some message\<rparr>"

definition initialLoad_finally :: "ProjectDetails \<Rightarrow> ProjectDetails" where
  "initialLoad_finally s = s\<lparr>loading := False\<rparr>"

text \<open>
  What can happen to the component, one event at a time: the project name changes, the
  promise of the initial load runs its continuations, the auto-calculation effect runs,
  the retry button is clicked (it calls the callback of the latest render), a statistics
  request settles (which it can only do while it is in flight).  The events may come in
  any order, which includes every order the scheduler produces.
\<close>

datatype event =
    ProjectChanged
  | LoadThen "Session list"
  | LoadCatch string
  | LoadFinally
  | AutoCalc
  | RetryClick string
  | StatsFulfilled string OneShotStats
  | StatsRejected string

fun step :: "event \<Rightarrow> ProjectDetails \<Rightarrow> ProjectDetails option" where
  "step ProjectChanged s = Some (initialLoad_effect s)"
| "step (LoadThen sessionsData) s = Some (initialLoad_then sessionsData s)"
| "step (LoadCatch message) s = Some (initialLoad_catch message s)"
| "step LoadFinally s = Some (initialLoad_finally s)"
| "step AutoCalc s = Some (autoCalc_effect s)"
| "step (RetryClick sessionId) s = Some (loadOneShotStats s sessionId s)"
| "step (StatsFulfilled sessionId stats) s =
     (if sessionId \<in> set (inflight s) then Some (loadOneShotStats_fulfilled sessionId stats s)
      else None)"
| "step (StatsRejected sessionId) s =
     (if sessionId \<in> set (inflight s) then Some (loadOneShotStats_rejected sessionId s)
      else None)"

fun run :: "event list \<Rightarrow> ProjectDetails \<Rightarrow> ProjectDetails option" where
  "run [] s = Some s"
| "run (e # es) s = (case step e s of None \<Rightarrow> None | Some s' \<Rightarrow> run es s')"

text \<open>An event that delivers a session list delivers one without a repeated id.\<close>

fun unique_ids :: "event \<Rightarrow> bool" where
  "unique_ids (LoadThen sessionsData) = distinct (map session_id sessionsData)"
| "unique_ids e = True"

text \<open>
  The invariant behind the single write: the session ids of the list are distinct, no
  id is twice among the requests in flight and the results written, a request in
  flight has its loading flag set, and a written result is in the result mapping.
\<close>

definition stats_inv :: "ProjectDetails \<Rightarrow> bool" where
  "stats_inv s \<longleftrightarrow>
     distinct (map session_id (sessions s)) \<and>
     distinct (inflight s @ written s) \<and>
     (\<forall>k \<in> set (inflight s). loadingStats s k = Some True) \<and>
     (\<forall>k \<in> set (written s). oneShotStats s k \<noteq> None)"


section \<open>Properties of the survival score\<close>

text \<open>
  C10.  In the diff viewer and in the details modal the displayed score
  \<open>displayScore\<close> is 100 when \<open>total_lines\<close> and \<open>retained_lines\<close> are both equal to 0,
  and it is the \<open>score\<close> field of the file in every other case, also when one of the two
  fields is absent.
\<close>

theorem displayScore_cases:
  "(total_lines f = Some 0 \<and> retained_lines f = Some 0 \<longrightarrow>
      displayScore_DiffViewer f = 100 \<and> displayScore_DetailsModal f = 100) \<and>
   (\<not> (total_lines f = Some 0 \<and> retained_lines f = Some 0) \<longrightarrow>
      displayScore_DiffViewer f = score f \<and> displayScore_DetailsModal f = score f)"
  by (simp add: displayScore_DiffViewer_def displayScore_DetailsModal_def)

theorem displayScore_cases_witness:
  "displayScore_DiffViewer
     \<lparr>path = ''a.ts'', score = 0, status = modified, total_lines = Some 0,
      retained_lines = Some 0, session_content = None, current_content = None\<rparr> = 100 \<and>
   displayScore_DetailsModal
     \<lparr>path = ''a.ts'', score = 0, status = modified, total_lines = Some 0,
      retained_lines = Some 0, session_content = None, current_content = None\<rparr> = 100 \<and>
   displayScore_DiffViewer
     \<lparr>path = ''b.ts'', score = 40, status = modified, total_lines = None,
      retained_lines = Some 0, session_content = None, current_content = None\<rparr> = 40 \<and>
   displayScore_DetailsModal
     \<lparr>path = ''b.ts'', score = 40, status = modified, total_lines = None,
      retained_lines = Some 0, session_content = None, current_content = None\<rparr> = 40"
  using displayScore_cases [of "\<lparr>path = ''a.ts'', score = 0, status = modified,
      total_lines = Some 0, retained_lines = Some 0, session_content = None,
      current_content = None\<rparr>"]
    displayScore_cases [of "\<lparr>path = ''b.ts'', score = 40, status = modified,
      total_lines = None, retained_lines = Some 0, session_content = None,
      current_content = None\<rparr>"]
  by simp


section \<open>Properties of the file-status map\<close>

lemma map_of_map_set: "map_of (map_set m k v) = (map_of m)(k \<mapsto> v)"
  by (induction m k v rule: map_set.induct) auto

lemma keys_map_set: "fst ` set (map_set m k v) = insert k (fst ` set m)"
  by (induction m k v rule: map_set.induct) auto

lemma distinct_map_set: "distinct (map fst m) \<Longrightarrow> distinct (map fst (map_set m k v))"
  by (induction m k v rule: map_set.induct) (auto simp: keys_map_set)

lemma keys_fileStatusMap_step:
  "fst ` set (fileStatusMap_step c m) = insert (FileChange.path c) (fst ` set m)"
proof (cases "map_of m (FileChange.path c) = Some ''write''")
  case True
  then have "FileChange.path c \<in> fst ` set m"
    by (metis map_of_eq_None_iff option.distinct(1))
  with True show ?thesis
    by (auto simp: fileStatusMap_step_def map_get_def)
next
  case False
  then show ?thesis
    by (simp add: fileStatusMap_step_def map_get_def keys_map_set)
qed

lemma keys_fold_step:
  "fst ` set (fold fileStatusMap_step cs m) = FileChange.path ` set cs \<union> fst ` set m"
  by (induction cs arbitrary: m) (auto simp: keys_fileStatusMap_step)

lemma distinct_fold_step:
  "distinct (map fst m) \<Longrightarrow> distinct (map fst (fold fileStatusMap_step cs m))"
  by (induction cs arbitrary: m) (auto simp: fileStatusMap_step_def Let_def distinct_map_set)

lemma get_fold_step:
  "map_of (fold fileStatusMap_step cs m) p =
     (if map_of m p = Some ''write'' then Some ''write''
      else if \<exists>c \<in> set cs. FileChange.path c = p \<and> type c = ''write'' then Some ''write''
      else (case filter (\<lambda>c. FileChange.path c = p) cs of
              [] \<Rightarrow> map_of m p
            | f # fs \<Rightarrow> Some (type (last (f # fs)))))"
proof (induction cs arbitrary: m)
  case Nil
  then show ?case by simp
next
  case (Cons c cs)
  show ?case
    apply (simp only: fold_simps Cons.IH)
    apply (auto simp: fileStatusMap_step_def Let_def map_get_def map_of_map_set split: list.splits)
    done
qed


text \<open>
  C9.  The keys of \<open>fileStatusMap\<close> are exactly the paths that occur in the change list
  (each once); a path maps to \<open>write\<close> exactly when some change of that path has type
  \<open>write\<close>; otherwise it maps to the type of the last change of that path.
\<close>

theorem fileStatusMap_keys_and_status:
  "set (map_keys (fileStatusMap changes)) = FileChange.path ` set changes \<and>
   distinct (map_keys (fileStatusMap changes)) \<and>
   (map_get (fileStatusMap changes) p = Some ''write'' \<longleftrightarrow>
      (\<exists>c \<in> set changes. FileChange.path c = p \<and> type c = ''write'')) \<and>
   (p \<in> FileChange.path ` set changes \<and>
    \<not> (\<exists>c \<in> set changes. FileChange.path c = p \<and> type c = ''write'') \<longrightarrow>
      map_get (fileStatusMap changes) p =
      Some (type (last (filter (\<lambda>c. FileChange.path c = p) changes))))"
proof -
  have keys: "set (map_keys (fileStatusMap changes)) = FileChange.path ` set changes"
    by (simp add: map_keys_def fileStatusMap_def keys_fold_step)
  have dist: "distinct (map_keys (fileStatusMap changes))"
    by (simp add: map_keys_def fileStatusMap_def distinct_fold_step)
  let ?W = "\<exists>c \<in> set changes. FileChange.path c = p \<and> type c = ''write''"
  let ?fs = "filter (\<lambda>c. FileChange.path c = p) changes"
  have get: "map_get (fileStatusMap changes) p =
     (if ?W then Some ''write''
      else (case ?fs of [] \<Rightarrow> None | f # fs \<Rightarrow> Some (type (last (f # fs)))))"
    unfolding map_get_def fileStatusMap_def get_fold_step by (auto split: list.splits)
  have get_nw: "map_get (fileStatusMap changes) p = Some (type (last ?fs))"
    if "\<not> ?W" "?fs \<noteq> []"
  proof -
    from that(2) obtain f fs where "?fs = f # fs" by (cases ?fs) auto
    moreover from that(1) have "?W = False" by blast
    ultimately show ?thesis using get by (simp only: if_False list.case)
  qed
  have wr: "map_get (fileStatusMap changes) p = Some ''write'' \<longleftrightarrow> ?W"
  proof (cases ?W)
    case True
    then have "?W = True" by blast
    with get show ?thesis by (simp only: if_True) simp
  next
    case False
    then have nW: "?W = False" by blast
    show ?thesis
    proof (cases "?fs = []")
      case True
      with get show ?thesis by (simp only: nW if_False list.case) simp
    next
      case ne: False
      then have "last ?fs \<in> set ?fs" by (rule last_in_set)
      then have "last ?fs \<in> set changes" "FileChange.path (last ?fs) = p" by auto
      with False have "type (last ?fs) \<noteq> ''write''" by blast
      with get_nw [OF False ne] show ?thesis by (simp only: nW) simp
    qed
  qed
  have lst: "p \<in> FileChange.path ` set changes \<and> \<not> ?W \<longrightarrow>
      map_get (fileStatusMap changes) p = Some (type (last ?fs))"
  proof (intro impI, elim conjE)
    assume mem: "p \<in> FileChange.path ` set changes" and nw: "\<not> ?W"
    from mem have "?fs \<noteq> []" by (auto simp: filter_empty_conv)
    with nw show "map_get (fileStatusMap changes) p = Some (type (last ?fs))"
      by (rule get_nw)
  qed
  from keys dist wr lst show ?thesis by blast
qed


theorem fileStatusMap_keys_and_status_witness:
  "set (map_keys (fileStatusMap
     [\<lparr>tool = ''Edit'', type = ''edit'', path = ''a'', timestamp = [], content = None,
        target_content = None, diff = None\<rparr>,
      \<lparr>tool = ''Write'', type = ''write'', path = ''a'', timestamp = [], content = None,
        target_content = None, diff = None\<rparr>,
      \<lparr>tool = ''Edit'', type = ''edit'', path = ''a'', timestamp = [], content = None,
        target_content = None, diff = None\<rparr>,
      \<lparr>tool = ''Edit'', type = ''edit'', path = ''b'', timestamp = [], content = None,
        target_content = None, diff = None\<rparr>])) = {''a'', ''b''} \<and>
   map_get (fileStatusMap
     [\<lparr>tool = ''Edit'', type = ''edit'', path = ''a'', timestamp = [], content = None,
        target_content = None, diff = None\<rparr>,
      \<lparr>tool = ''Write'', type = ''write'', path = ''a'', timestamp = [], content = None,
        target_content = None, diff = None\<rparr>,
      \<lparr>tool = ''Edit'', type = ''edit'', path = ''a'', timestamp = [], content = None,
        target_content = None, diff = None\<rparr>,
      \<lparr>tool = ''Edit'', type = ''edit'', path = ''b'', timestamp = [], content = None,
        target_content = None, diff = None\<rparr>]) ''a'' = Some ''write'' \<and>
   map_get (fileStatusMap
     [\<lparr>tool = ''Edit'', type = ''edit'', path = ''a'', timestamp = [], content = None,
        target_content = None, diff = None\<rparr>,
      \<lparr>tool = ''Write'', type = ''write'', path = ''a'', timestamp = [], content = None,
        target_content = None, diff = None\<rparr>,
      \<lparr>tool = ''Edit'', type = ''edit'', path = ''a'', timestamp = [], content = None,
        target_content = None, diff = None\<rparr>,
      \<lparr>tool = ''Edit'', type = ''edit'', path = ''b'', timestamp = [], content = None,
        target_content = None, diff = None\<rparr>]) ''b'' = Some ''edit''"
  using fileStatusMap_keys_and_status [of
     "[\<lparr>tool = ''Edit'', type = ''edit'', path = ''a'', timestamp = [], content = None,
        target_content = None, diff = None\<rparr>,
      \<lparr>tool = ''Write'', type = ''write'', path = ''a'', timestamp = [], content = None,
        target_content = None, diff = None\<rparr>,
      \<lparr>tool = ''Edit'', type = ''edit'', path = ''a'', timestamp = [], content = None,
        target_content = None, diff = None\<rparr>,
      \<lparr>tool = ''Edit'', type = ''edit'', path = ''b'', timestamp = [], content = None,
        target_content = None, diff = None\<rparr>]" "''a''"]
    fileStatusMap_keys_and_status [of
     "[\<lparr>tool = ''Edit'', type = ''edit'', path = ''a'', timestamp = [], content = None,
        target_content = None, diff = None\<rparr>,
      \<lparr>tool = ''Write'', type = ''write'', path = ''a'', timestamp = [], content = None,
        target_content = None, diff = None\<rparr>,
      \<lparr>tool = ''Edit'', type = ''edit'', path = ''a'', timestamp = [], content = None,
        target_content = None, diff = None\<rparr>,
      \<lparr>tool = ''Edit'', type = ''edit'', path = ''b'', timestamp = [], content = None,
        target_content = None, diff = None\<rparr>]" "''b''"]
  by simp



section \<open>Properties of the common path prefix\<close>

lemma js_split_not_Nil: "js_split c s \<noteq> []"
  by (induction s) (auto split: list.splits)

lemma js_join_Cons_Cons: "js_join sep ((x # w) # ws) = x # js_join sep (w # ws)"
  by (cases ws) auto

lemma js_join_split: "js_join [c] (js_split c s) = s"
proof (induction s)
  case Nil
  show ?case by simp
next
  case (Cons x xs)
  obtain w ws where w: "js_split c xs = w # ws"
    using js_split_not_Nil [of c xs] by (cases "js_split c xs") auto
  with Cons show ?case
    by (auto simp: js_join_Cons_Cons)
qed

lemma js_split_append_sep: "js_split c (xs @ c # ys) = js_split c xs @ js_split c ys"
proof (induction xs)
  case Nil
  show ?case by simp
next
  case (Cons x xs)
  obtain w ws where w: "js_split c xs = w # ws"
    using js_split_not_Nil [of c xs] by (cases "js_split c xs") auto
  with Cons show ?case by auto
qed

lemma js_split_no_sep: "c \<notin> set ys \<Longrightarrow> js_split c ys = [ys]"
  by (induction ys) auto

lemma lastIndexOf_decomp:
  assumes "s = xs @ c # ys" "c \<notin> set ys"
  shows "lastIndexOf c s = int (length xs)"
proof -
  have "takeWhile (\<lambda>x. x \<noteq> c) (rev s) = rev ys"
    using assms by (auto simp: takeWhile_tail)
  with assms show ?thesis by (simp add: lastIndexOf_def)
qed

lemma lastIndexOf_nonneg:
  assumes "0 \<le> lastIndexOf c s"
  obtains xs ys where "s = xs @ c # ys" "c \<notin> set ys" "lastIndexOf c s = int (length xs)"
proof -
  from assms have "c \<in> set s" by (auto simp: lastIndexOf_def split: if_splits)
  then obtain xs ys where "s = xs @ c # ys" "c \<notin> set ys"
    by (meson split_list_last)
  with lastIndexOf_decomp [OF this] that show thesis by blast
qed

lemma take_lastIndexOf:
  assumes "0 \<le> lastIndexOf c s"
  shows "take (nat (lastIndexOf c s + 1)) s = js_join [c] (butlast (js_split c s)) @ [c]"
proof -
  from assms obtain xs ys where s: "s = xs @ c # ys" "c \<notin> set ys"
    and i: "lastIndexOf c s = int (length xs)"
    by (rule lastIndexOf_nonneg)
  have "butlast (js_split c s) = js_split c xs"
    by (simp add: s js_split_append_sep js_split_no_sep)
  moreover have "nat (lastIndexOf c s + 1) = Suc (length xs)"
    by (simp add: i)
  moreover have "take (Suc (length xs)) s = xs @ [c]"
    by (simp add: s(1))
  ultimately show ?thesis
    by (simp add: js_join_split)
qed


lemma math_min_Some:
  "ls \<noteq> [] \<Longrightarrow> \<exists>n. math_min ls = Some n \<and> n \<in> set ls \<and> (\<forall>l \<in> set ls. n \<le> l)"
proof (induction ls)
  case Nil
  then show ?case by simp
next
  case (Cons x xs)
  show ?case
  proof (cases "xs = []")
    case True
    then show ?thesis by simp
  next
    case False
    with Cons.IH obtain n where "math_min xs = Some n" "n \<in> set xs" "\<forall>l \<in> set xs. n \<le> l"
      by blast
    then show ?thesis by (auto simp: min_def)
  qed
qed

lemma prefix_snoc_nth:
  assumes "prefix acc q" "length acc < length q"
  shows "prefix (acc @ [q ! length acc]) q"
proof -
  from assms obtain zs where q: "q = acc @ zs" by (auto simp: prefix_def)
  with assms(2) obtain z zs' where "zs = z # zs'" by (cases zs) auto
  with q show ?thesis by (simp add: prefix_def)
qed

lemma prefix_nth: "prefix p q \<Longrightarrow> i < length p \<Longrightarrow> p ! i = q ! i"
  by (auto simp: prefix_def nth_append)

lemma commonPrefix_loop_longest:
  assumes "splitPaths \<noteq> []"
    and "\<forall>q \<in> set splitPaths. minLen \<le> length q"
    and "\<exists>q \<in> set splitPaths. length q = minLen"
    and "i < minLen"
    and "length acc = i"
    and "\<forall>q \<in> set splitPaths. prefix acc q"
  shows "(\<forall>q \<in> set splitPaths. strict_prefix (commonPrefix_loop splitPaths minLen i acc) q) \<and>
         (\<forall>p'. (\<forall>q \<in> set splitPaths. strict_prefix p' q) \<longrightarrow>
               prefix p' (commonPrefix_loop splitPaths minLen i acc))"
  using assms
proof (induction splitPaths minLen i acc rule: commonPrefix_loop.induct)
  case (1 splitPaths minLen i acc)
  have strict: "strict_prefix acc q" if "q \<in> set splitPaths" for q
  proof -
    from that "1.prems" have "prefix acc q" "length acc < length q" by auto
    then show ?thesis by (auto simp: strict_prefix_def)
  qed
  have first: "splitPaths ! 0 \<in> set splitPaths"
    using "1.prems"(1) by (simp add: nth_mem)
  show ?case
  proof (cases "int i < int minLen - 1")
    case more: True
    let ?segment = "splitPaths ! 0 ! i"
    show ?thesis
    proof (cases "list_all (\<lambda>p. p ! i = ?segment) splitPaths")
      case True
      have step: "\<forall>q \<in> set splitPaths. prefix (acc @ [?segment]) q"
      proof
        fix q assume q: "q \<in> set splitPaths"
        with "1.prems" have "prefix acc q" "length acc < length q" by auto
        then have "prefix (acc @ [q ! length acc]) q" by (rule prefix_snoc_nth)
        moreover from True q have "q ! i = ?segment" by (simp add: list_all_iff)
        ultimately show "prefix (acc @ [?segment]) q" using "1.prems"(5) by simp
      qed
      from more have "i + 1 < minLen" by simp
      with "1.IH" [OF more refl True "1.prems"(1,2,3)] step "1.prems"(5)
      have "(\<forall>q \<in> set splitPaths.
               strict_prefix (commonPrefix_loop splitPaths minLen (i + 1) (acc @ [?segment])) q) \<and>
            (\<forall>p'. (\<forall>q \<in> set splitPaths. strict_prefix p' q) \<longrightarrow>
               prefix p' (commonPrefix_loop splitPaths minLen (i + 1) (acc @ [?segment])))"
        by simp
      moreover have "commonPrefix_loop splitPaths minLen i acc =
          commonPrefix_loop splitPaths minLen (i + 1) (acc @ [?segment])"
        using more True by (subst commonPrefix_loop.simps) (simp add: Let_def)
      ultimately show ?thesis by simp
    next
      case False
      then obtain q0 where q0: "q0 \<in> set splitPaths" "q0 ! i \<noteq> ?segment"
        by (auto simp: list_all_iff)
      have res: "commonPrefix_loop splitPaths minLen i acc = acc"
        using more False by (subst commonPrefix_loop.simps) (simp add: Let_def)
      have "prefix p' acc" if all: "\<forall>q \<in> set splitPaths. strict_prefix p' q" for p'
      proof (rule ccontr)
        assume np: "\<not> prefix p' acc"
        from all first have p0: "prefix p' (splitPaths ! 0)" by (auto simp: strict_prefix_def)
        from "1.prems"(6) first have "prefix acc (splitPaths ! 0)" by blast
        with p0 have "prefix p' acc \<or> prefix acc p'" by (rule prefix_same_cases)
        with np have "prefix acc p'" "acc \<noteq> p'" by auto
        then have "length acc < length p'"
          by (metis prefix_length_less strict_prefix_def)
        with "1.prems"(5) have i: "i < length p'" by simp
        from all q0 have "prefix p' q0" by (auto simp: strict_prefix_def)
        then have "p' ! i = q0 ! i" using i by (rule prefix_nth)
        moreover from p0 i have "p' ! i = ?segment" by (rule prefix_nth)
        ultimately show False using q0(2) by simp
      qed
      with strict res show ?thesis by simp
    qed
  next
    case False
    with "1.prems"(4) have last: "minLen = i + 1" by linarith
    have res: "commonPrefix_loop splitPaths minLen i acc = acc"
      using False by (subst commonPrefix_loop.simps) simp
    from "1.prems"(3) obtain q0 where q0: "q0 \<in> set splitPaths" "length q0 = minLen" by blast
    have "prefix p' acc" if all: "\<forall>q \<in> set splitPaths. strict_prefix p' q" for p'
    proof -
      from all q0 have "strict_prefix p' q0" by blast
      then have "prefix p' q0" "length p' < length q0"
        by (auto simp: strict_prefix_def dest: prefix_length_less [OF strict_prefixI])
      with q0(2) last "1.prems"(5) have "length p' \<le> length acc" by simp
      moreover from "1.prems"(6) q0 have "prefix acc q0" by blast
      ultimately show ?thesis using \<open>prefix p' q0\<close> by (rule_tac prefix_length_prefix)
    qed
    with strict res show ?thesis by simp
  qed
qed


lemma commonSegments_longest:
  assumes "paths \<noteq> []"
  shows "\<exists>cp. commonSegments paths = Inr cp \<and>
           (\<forall>q \<in> set (map (js_split CHR ''/'') paths). strict_prefix cp q) \<and>
           (\<forall>p'. (\<forall>q \<in> set (map (js_split CHR ''/'') paths). strict_prefix p' q) \<longrightarrow> prefix p' cp)"
proof -
  let ?sp = "map (js_split CHR ''/'') paths"
  from assms have ne: "?sp \<noteq> []" by simp
  then have "map length ?sp \<noteq> []" by simp
  from math_min_Some [OF this] obtain n where n: "math_min (map length ?sp) = Some n"
    "n \<in> set (map length ?sp)" "\<forall>l \<in> set (map length ?sp). n \<le> l"
    by blast
  from n(2) have ex: "\<exists>q \<in> set ?sp. length q = n" by auto
  from n(3) have le: "\<forall>q \<in> set ?sp. n \<le> length q" by auto
  from ex have pos: "0 < n" by (auto simp: js_split_not_Nil)
  have "(\<forall>q \<in> set ?sp. strict_prefix (commonPrefix_loop ?sp n 0 []) q) \<and>
        (\<forall>p'. (\<forall>q \<in> set ?sp. strict_prefix p' q) \<longrightarrow> prefix p' (commonPrefix_loop ?sp n 0 []))"
    by (rule commonPrefix_loop_longest [OF ne le ex pos]) simp_all
  moreover have "commonSegments paths = Inr (commonPrefix_loop ?sp n 0 [])"
    unfolding commonSegments_def Let_def n(1) by simp
  ultimately show ?thesis by blast
qed

lemma longest_strict_prefix_single:
  assumes "strict_prefix cp q" "\<forall>p'. strict_prefix p' q \<longrightarrow> prefix p' cp"
  shows "cp = butlast q"
proof -
  from assms(1) have "q \<noteq> []" by auto
  then have "strict_prefix (butlast q) q"
    by (metis append_butlast_last_id strict_prefixI')
  with assms(2) have "prefix (butlast q) cp" by blast
  moreover from assms(1) have "length cp < length q" by (rule prefix_length_less)
  then have "length cp \<le> length (butlast q)" by simp
  ultimately show ?thesis
    by (auto simp: prefix_def)
qed

text \<open>
  C1, as the code has it.  For a non-empty list of paths, split at \<open>/\<close>, the segments
  that the loop collects are the longest sequence of leading segments that is a proper
  prefix of every split path: the loop stops one short of the shortest path, so that the
  last segment of a path (its file name) is never part of the prefix.  \<open>buildFileTree\<close>
  returns these segments joined by \<open>/\<close>.  \<open>getCommonPrefix\<close>, given two paths or more,
  returns them joined by \<open>/\<close> and followed by \<open>/\<close>, or the empty string when there is
  none; given one path, it returns the same unless the last \<open>/\<close> of the path is at
  index 0, where it returns the empty string.
\<close>

theorem common_prefix_longest_proper:
  assumes "paths \<noteq> []"
  shows "\<exists>cp. commonSegments paths = Inr cp \<and>
           (\<forall>q \<in> set (map (js_split CHR ''/'') paths). strict_prefix cp q) \<and>
           (\<forall>p'. (\<forall>q \<in> set (map (js_split CHR ''/'') paths). strict_prefix p' q) \<longrightarrow> prefix p' cp) \<and>
           buildFileTree_prefix paths = Inr (js_join ''/'' cp) \<and>
           (\<forall>fileMap proto t proto'.
               map_keys fileMap = paths \<and> buildFileTree fileMap proto = (Inr t, proto') \<longrightarrow>
               prefixStr t = js_join ''/'' cp) \<and>
           (2 \<le> length paths \<longrightarrow>
              getCommonPrefix paths = Inr (if cp = [] then [] else js_join ''/'' cp @ ''/'')) \<and>
           (length paths = 1 \<longrightarrow>
              getCommonPrefix paths =
              Inr (if 0 < lastIndexOf CHR ''/'' (paths ! 0) then js_join ''/'' cp @ ''/'' else []))"
proof -
  from commonSegments_longest [OF assms] obtain cp where cp: "commonSegments paths = Inr cp"
    and strict: "\<forall>q \<in> set (map (js_split CHR ''/'') paths). strict_prefix cp q"
    and longest: "\<forall>p'. (\<forall>q \<in> set (map (js_split CHR ''/'') paths). strict_prefix p' q) \<longrightarrow> prefix p' cp"
    by blast
  have tree_prefix: "buildFileTree_prefix paths = Inr (js_join ''/'' cp)"
    by (simp add: buildFileTree_prefix_def cp)
  have tree: "prefixStr t = js_join ''/'' cp"
    if "map_keys fileMap = paths" "buildFileTree fileMap proto = (Inr t, proto')"
    for fileMap proto t proto'
    using that assms cp
    by (auto simp: buildFileTree_def Let_def split: prod.splits sum.splits)
  have many: "getCommonPrefix paths = Inr (if cp = [] then [] else js_join ''/'' cp @ ''/'')"
    if "2 \<le> length paths"
    using that cp by (auto simp: getCommonPrefix_def)
  have single: "getCommonPrefix paths =
      Inr (if 0 < lastIndexOf CHR ''/'' (paths ! 0) then js_join ''/'' cp @ ''/'' else [])"
    if one: "length paths = 1"
  proof -
    from one obtain s where s: "paths = [s]" by (cases paths) auto
    with strict longest have "cp = butlast (js_split CHR ''/'' s)"
      by (intro longest_strict_prefix_single) auto
    then show ?thesis
      by (simp add: getCommonPrefix_def s Let_def take_lastIndexOf)
  qed
  from cp strict longest tree_prefix tree many single show ?thesis
    by blast
qed

theorem common_prefix_longest_proper_witness:
  "[''/p/src/a.ts'', ''/p/src/lib/b.ts''] \<noteq> [] \<and>
   commonSegments [''/p/src/a.ts'', ''/p/src/lib/b.ts''] = Inr [[], ''p'', ''src''] \<and>
   buildFileTree_prefix [''/p/src/a.ts'', ''/p/src/lib/b.ts''] = Inr ''/p/src'' \<and>
   getCommonPrefix [''/p/src/a.ts'', ''/p/src/lib/b.ts''] = Inr ''/p/src/''"
proof -
  from common_prefix_longest_proper [of "[''/p/src/a.ts'', ''/p/src/lib/b.ts'']"]
  obtain cp where cp: "commonSegments [''/p/src/a.ts'', ''/p/src/lib/b.ts''] = Inr cp"
    and tree: "buildFileTree_prefix [''/p/src/a.ts'', ''/p/src/lib/b.ts''] = Inr (js_join ''/'' cp)"
    and many: "getCommonPrefix [''/p/src/a.ts'', ''/p/src/lib/b.ts''] =
                 Inr (if cp = [] then [] else js_join ''/'' cp @ ''/'')"
    by auto
  have "commonSegments [''/p/src/a.ts'', ''/p/src/lib/b.ts''] = Inr [[], ''p'', ''src'']"
    by (simp add: commonSegments_def commonPrefix_loop.simps)
  with cp have "cp = [[], ''p'', ''src'']" by simp
  with cp tree many show ?thesis by simp
qed

text \<open>
  The two paths \<open>a/b\<close> and \<open>a/b/c\<close> share the leading segments \<open>a\<close>, \<open>b\<close>, and both
  computations return the shorter \<open>a\<close>: the prefix returned is not the longest sequence
  of leading segments shared by every path.  Likewise for the single path
  \<open>/repo/a.ts\<close>, whose segments are all shared by every path of the list.
\<close>

theorem common_prefix_not_longest_counterexample:
  "commonSegments [''a/b'', ''a/b/c''] = Inr [''a''] \<and>
   buildFileTree_prefix [''a/b'', ''a/b/c''] = Inr ''a'' \<and>
   getCommonPrefix [''a/b'', ''a/b/c''] = Inr ''a/'' \<and>
   prefix [''a'', ''b''] (js_split CHR ''/'' ''a/b'') \<and>
   prefix [''a'', ''b''] (js_split CHR ''/'' ''a/b/c'') \<and>
   \<not> prefix [''a'', ''b''] [''a''] \<and>
   js_split CHR ''/'' ''/repo/a.ts'' = [[], ''repo'', ''a.ts''] \<and>
   commonSegments [''/repo/a.ts''] = Inr [[], ''repo''] \<and>
   buildFileTree_prefix [''/repo/a.ts''] = Inr ''/repo'' \<and>
   getCommonPrefix [''/repo/a.ts''] = Inr ''/repo/''"
  by (simp add: commonSegments_def buildFileTree_prefix_def getCommonPrefix_def
      commonPrefix_loop.simps lastIndexOf_def)


section \<open>The file-tree builder on inherited property names\<close>

text \<open>
  Started with an \<open>Object.prototype\<close> that has its built-in properties only, the
  builder returns normally, and leaves the prototype as it is, whenever no segment of a
  path is the name of such a property: the parts it inserts are segments of the path,
  and a part that is not inherited finds a node or nothing.
\<close>

lemma js_split_no_sep_in_segment: "seg \<in> set (js_split c s) \<Longrightarrow> c \<notin> set seg"
proof (induction s arbitrary: seg)
  case Nil
  then show ?case by simp
next
  case (Cons x xs)
  obtain w ws where w: "js_split c xs = w # ws"
    using js_split_not_Nil [of c xs] by (cases "js_split c xs") auto
  with Cons show ?case by (auto split: if_splits)
qed

lemma js_split_append_no_sep:
  "c \<notin> set y \<Longrightarrow> js_split c (y @ c # s) = y # js_split c s"
  by (simp add: js_split_append_sep js_split_no_sep)

lemma js_split_join:
  "ys \<noteq> [] \<Longrightarrow> \<forall>y \<in> set ys. c \<notin> set y \<Longrightarrow> js_split c (js_join [c] ys) = ys"
proof (induction "[c]" ys rule: js_join.induct)
  case 1
  then show ?case by simp
next
  case (2 x)
  then show ?case by (simp add: js_split_no_sep)
next
  case (3 x y ys)
  then show ?case by (simp add: js_split_append_no_sep)
qed

lemma js_join_append:
  "xs \<noteq> [] \<Longrightarrow> ys \<noteq> [] \<Longrightarrow> js_join sep (xs @ ys) = js_join sep xs @ sep @ js_join sep ys"
proof (induction sep xs rule: js_join.induct)
  case (1 sep)
  then show ?case by simp
next
  case (2 sep x)
  then show ?case by (cases ys) auto
next
  case (3 sep x y zs)
  then show ?case by simp
qed

lemma relative_parts_subset:
  assumes "strict_prefix cp (js_split CHR ''/'' p)"
  defines "parts \<equiv> js_split CHR ''/'' (strip_leading_slash (drop (length (js_join ''/'' cp)) p))"
  shows "set parts \<subseteq> set (js_split CHR ''/'' p)"
proof (cases "cp = []")
  case True
  then show ?thesis
    unfolding parts_def by (cases p) auto
next
  case False
  from assms(1) obtain ys where sp: "js_split CHR ''/'' p = cp @ ys" "ys \<noteq> []"
    by (auto simp: strict_prefix_def prefix_def)
  have "p = js_join ''/'' (js_split CHR ''/'' p)" by (simp add: js_join_split)
  also have "\<dots> = js_join ''/'' cp @ ''/'' @ js_join ''/'' ys"
    using False sp by (simp add: js_join_append)
  finally have "drop (length (js_join ''/'' cp)) p = CHR ''/'' # js_join ''/'' ys" by simp
  moreover have "js_split CHR ''/'' (js_join ''/'' ys) = ys"
  proof (rule js_split_join [OF sp(2)])
    show "\<forall>y \<in> set ys. CHR ''/'' \<notin> set y"
      using sp(1) js_split_no_sep_in_segment [of _ "CHR ''/''" p] by auto
  qed
  ultimately show ?thesis unfolding parts_def using sp(1) by simp
qed

lemma insert_parts_returns:
  assumes "\<forall>part \<in> set parts. part \<notin> set object_prototype_keys"
  shows "\<exists>current'. insert_parts p st parts [] current = (Inr current', [])"
  using assms
proof (induction parts arbitrary: current)
  case Nil
  show ?case by simp
next
  case (Cons part rest)
  from Cons.prems have part: "part \<notin> set object_prototype_keys" by simp
  then have np: "part \<noteq> ''__proto__''" by (auto simp: object_prototype_keys_def)
  define found where "found = get_property [] current part"
  define target where
    "target = (if truthy_property found then found else Node (TreeNode part None None [] True))"
  have "\<exists>n. target = Node n"
    using part np unfolding target_def found_def get_property_def map_get_def
    by (cases "map_of current part") auto
  then obtain n where n: "target = Node n" ..
  define n1 where
    "n1 = (if rest = [] then TreeNode (name n) (Some p) st (children n) (isOpen n) else n)"
  from Cons.IH [of "children n1"] Cons.prems obtain ch
    where ch: "insert_parts p st rest [] (children n1) = (Inr ch, [])"
    by auto
  show ?case
    using n ch unfolding target_def found_def n1_def
    by (simp add: Let_def)
qed

lemma insert_paths_returns:
  assumes "\<forall>p \<in> set ps. \<forall>part \<in> set (js_split CHR ''/'' (strip_leading_slash (drop n p))).
             part \<notin> set object_prototype_keys"
  shows "\<exists>tree'. insert_paths fileMap n ps [] tree = (Inr tree', [])"
  using assms
proof (induction ps arbitrary: tree)
  case Nil
  show ?case by simp
next
  case (Cons p ps)
  let ?parts = "js_split CHR ''/'' (strip_leading_slash (drop n p))"
  from Cons.prems have "\<forall>part \<in> set ?parts. part \<notin> set object_prototype_keys" by simp
  from insert_parts_returns [OF this] obtain tree1
    where t1: "insert_parts p (map_get fileMap p) ?parts [] tree = (Inr tree1, [])"
    by blast
  from Cons.IH [of tree] Cons.prems obtain tree2
    where t2: "insert_paths fileMap n ps [] tree = (Inr tree2, [])"
    by auto
  from Cons.IH [of tree1] Cons.prems obtain tree3
    where t3: "insert_paths fileMap n ps [] tree1 = (Inr tree3, [])"
    by auto
  show ?case
    using t1 t2 t3 by (simp add: Let_def)
qed

lemma buildFileTree_returns:
  assumes "\<forall>p \<in> set (map_keys fileMap). \<forall>seg \<in> set (js_split CHR ''/'' p).
             seg \<notin> set object_prototype_keys"
  shows "\<exists>t. buildFileTree fileMap [] = (Inr t, [])"
proof (cases "map_keys fileMap = []")
  case True
  then show ?thesis by (simp add: buildFileTree_def)
next
  case False
  from commonSegments_longest [OF False] obtain cp
    where cp: "commonSegments (map_keys fileMap) = Inr cp"
      and strict: "\<forall>q \<in> set (map (js_split CHR ''/'') (map_keys fileMap)). strict_prefix cp q"
    by blast
  have "\<forall>p \<in> set (map_keys fileMap).
          \<forall>part \<in> set (js_split CHR ''/'' (strip_leading_slash (drop (length (js_join ''/'' cp)) p))).
             part \<notin> set object_prototype_keys"
  proof (intro ballI)
    fix p part
    assume p: "p \<in> set (map_keys fileMap)"
      and part: "part \<in> set (js_split CHR ''/'' (strip_leading_slash (drop (length (js_join ''/'' cp)) p)))"
    from p strict have "strict_prefix cp (js_split CHR ''/'' p)" by simp
    from relative_parts_subset [OF this] part have "part \<in> set (js_split CHR ''/'' p)" by blast
    with assms p show "part \<notin> set object_prototype_keys" by blast
  qed
  from insert_paths_returns [OF this, of fileMap "[]"] obtain r
    where "insert_paths fileMap (length (js_join ''/'' cp)) (map_keys fileMap) [] [] = (Inr r, [])"
    by blast
  with False cp show ?thesis
    by (simp add: buildFileTree_def Let_def)
qed

text \<open>
  C8.  For the empty map \<open>buildFileTree\<close> returns the empty root and the empty prefix.
  It does not return for every input: the test \<open>!current[part]\<close> also finds the
  properties that every object inherits.  With the two changed files
  \<open>/repo/src/constructor/index.ts\<close> and \<open>/repo/src/main.ts\<close> the prefix is \<open>/repo/src\<close>,
  the first relative path is \<open>constructor/index.ts\<close>, the part \<open>constructor\<close> finds the
  inherited \<open>Object\<close> function, whose \<open>children\<close> is \<open>undefined\<close>, and the next part
  reads a property of \<open>undefined\<close>: a \<open>TypeError\<close> leaves the function.
\<close>

theorem buildFileTree_empty_and_inherited_name:
  "buildFileTree [] proto = (Inr \<lparr>root = [], prefixStr = []\<rparr>, proto) \<and>
   buildFileTree
     (fileStatusMap
        [\<lparr>tool = ''Write'', type = ''write'', path = ''/repo/src/constructor/index.ts'',
          timestamp = [], content = None, target_content = None, diff = None\<rparr>,
         \<lparr>tool = ''Edit'', type = ''edit'', path = ''/repo/src/main.ts'',
          timestamp = [], content = None, target_content = None, diff = None\<rparr>]) [] =
   (Inl TypeError, [])"
  by (simp add: buildFileTree_def map_keys_def fileStatusMap_def fileStatusMap_step_def
      map_get_def commonSegments_def commonPrefix_loop.simps get_property_def
      object_prototype_keys_def)


section \<open>Properties of the token-usage chart\<close>

lemma map_from_eq:
  assumes "\<forall>h \<in> set es. \<forall>j. f h j = Inr (g h j)"
  shows "map_from f i es = Inr (map (\<lambda>(j, h). g h j) (zip [i..<i + length es] es))"
  using assms
proof (induction es arbitrary: i)
  case Nil
  show ?case by simp
next
  case (Cons h hs)
  from Cons.prems have h: "f h i = Inr (g h i)" by simp
  from Cons.prems have "map_from f (i + 1) hs =
      Inr (map (\<lambda>(j, h). g h j) (zip [i + 1..<i + 1 + length hs] hs))"
    by (intro Cons.IH) simp
  moreover have "[i..<i + length (h # hs)] = i # [i + 1..<i + 1 + length hs]"
    by (subst upt_rec) simp
  ultimately show ?case
    by (simp only: map_from.simps h sum.case zip_Cons_Cons list.map prod.case)
qed

lemma get_member_projr:
  "h \<noteq> JNull \<Longrightarrow> h \<noteq> JUndefined \<Longrightarrow> get_member h k = Inr (projr (get_member h k))"
  by (cases h) simp_all

lemma point_SessionStats_eq:
  assumes "h \<noteq> JNull" "h \<noteq> JUndefined"
    and "\<exists>tm. lt (projr (get_member h ''timestamp'')) = Inr tm"
  shows "point_SessionStats lt h i =
           Inr \<lparr>point_name = ''Turn '' @ number_to_string (i + 1),
                point_input = projr (get_member h ''input''),
                point_output = projr (get_member h ''output''),
                point_total = projr (get_member h ''total''),
                point_time = projr (lt (projr (get_member h ''timestamp'')))\<rparr>"
proof -
  from assms(3) obtain tm where tm: "lt (projr (get_member h ''timestamp'')) = Inr tm" ..
  show ?thesis
    unfolding point_SessionStats_def
    by (subst (1 2 3 4) get_member_projr [OF assms(1,2)]) (simp only: sum.case tm sum.sel)
qed

lemma point_SessionAnalytics_eq:
  assumes "h \<noteq> JNull" "h \<noteq> JUndefined"
    and "\<exists>tm. lt (projr (get_member h ''timestamp'')) = Inr tm"
  shows "point_SessionAnalytics t lt h i =
           Inr \<lparr>point_name = t ''analytics.turn'' @ '' '' @ number_to_string (i + 1),
                point_input = or_zero (projr (get_member h ''input'')),
                point_output = or_zero (projr (get_member h ''output'')),
                point_total = or_zero (projr (get_member h ''total'')),
                point_time = (if truthy (projr (get_member h ''timestamp''))
                              then projr (lt (projr (get_member h ''timestamp''))) else [])\<rparr>"
proof -
  from assms(3) obtain tm where tm: "lt (projr (get_member h ''timestamp'')) = Inr tm" ..
  show ?thesis
    unfolding point_SessionAnalytics_def
    by (subst (1 2 3 4) get_member_projr [OF assms(1,2)])
      (simp only: sum.case tm sum.sel if_distrib [of "case_sum _ _"] cong: if_cong, simp)
qed

text \<open>
  C4, as the code has it.  When \<open>token_usage_history\<close> is a non-empty string that parses
  as an array of \<open>n\<close> entries none of which is \<open>null\<close>, both computations return \<open>n\<close>
  points in the order of the entries.  In \<open>SessionStatsModal\<close> point \<open>i\<close> is named
  \<open>Turn\<close> followed by \<open>i + 1\<close> and carries the entry's \<open>input\<close>, \<open>output\<close> and \<open>total\<close>
  properties as they are.  In \<open>SessionAnalyticsModal\<close> the name is the translation of
  \<open>analytics.turn\<close> followed by \<open>i + 1\<close>, and a falsy property value is replaced by 0.
\<close>

theorem chartData_points:
  assumes "token_usage_history session = Some s" and "s \<noteq> []"
    and "JSON_parse s = Some (JArr es)"
    and "\<forall>e \<in> set es. e \<noteq> JNull \<and> e \<noteq> JUndefined"
    and "\<forall>e \<in> set es. \<forall>ts. get_member e ''timestamp'' = Inr ts \<longrightarrow>
           (\<exists>tm. toLocaleTimeString ts = Inr tm)"
  shows "\<exists>pts apts.
           chartData_SessionStats JSON_parse toLocaleTimeString session = Inr pts \<and>
           length pts = length es \<and>
           (\<forall>i < length es.
              point_name (pts ! i) = ''Turn '' @ number_to_string (i + 1) \<and>
              get_member (es ! i) ''input'' = Inr (point_input (pts ! i)) \<and>
              get_member (es ! i) ''output'' = Inr (point_output (pts ! i)) \<and>
              get_member (es ! i) ''total'' = Inr (point_total (pts ! i))) \<and>
           chartData_SessionAnalytics JSON_parse t toLocaleTimeString session = Inr apts \<and>
           length apts = length es \<and>
           (\<forall>i < length es.
              point_name (apts ! i) = t ''analytics.turn'' @ '' '' @ number_to_string (i + 1) \<and>
              (\<exists>a b c.
                 get_member (es ! i) ''input'' = Inr a \<and> point_input (apts ! i) = or_zero a \<and>
                 get_member (es ! i) ''output'' = Inr b \<and> point_output (apts ! i) = or_zero b \<and>
                 get_member (es ! i) ''total'' = Inr c \<and> point_total (apts ! i) = or_zero c))"
proof -
  let ?g = "\<lambda>h i. \<lparr>point_name = ''Turn '' @ number_to_string (i + 1),
                point_input = projr (get_member h ''input''),
                point_output = projr (get_member h ''output''),
                point_total = projr (get_member h ''total''),
                point_time = projr (toLocaleTimeString (projr (get_member h ''timestamp'')))\<rparr>"
  let ?ga = "\<lambda>h i. \<lparr>point_name = t ''analytics.turn'' @ '' '' @ number_to_string (i + 1),
                point_input = or_zero (projr (get_member h ''input'')),
                point_output = or_zero (projr (get_member h ''output'')),
                point_total = or_zero (projr (get_member h ''total'')),
                point_time = (if truthy (projr (get_member h ''timestamp''))
                              then projr (toLocaleTimeString (projr (get_member h ''timestamp'')))
                              else [])\<rparr>"
  let ?pts = "map (\<lambda>(j, h). ?g h j) (zip [0..<0 + length es] es)"
  let ?apts = "map (\<lambda>(j, h). ?ga h j) (zip [0..<0 + length es] es)"
  have tm: "\<exists>tm. toLocaleTimeString (projr (get_member h ''timestamp'')) = Inr tm"
    if "h \<in> set es" for h
  proof -
    from that assms(4) have "get_member h ''timestamp'' = Inr (projr (get_member h ''timestamp''))"
      by (intro get_member_projr) auto
    with that assms(5) show ?thesis by blast
  qed
  have "\<forall>h \<in> set es. \<forall>j. point_SessionStats toLocaleTimeString h j = Inr (?g h j)"
    using assms(4) tm by (simp add: point_SessionStats_eq)
  then have m: "map_from (point_SessionStats toLocaleTimeString) 0 es = Inr ?pts"
    by (rule map_from_eq)
  have "\<forall>h \<in> set es. \<forall>j. point_SessionAnalytics t toLocaleTimeString h j = Inr (?ga h j)"
    using assms(4) tm by (simp add: point_SessionAnalytics_eq)
  then have ma: "map_from (point_SessionAnalytics t toLocaleTimeString) 0 es = Inr ?apts"
    by (rule map_from_eq)
  have stats: "chartData_SessionStats JSON_parse toLocaleTimeString session = Inr ?pts"
    unfolding chartData_SessionStats_def try_catch_def using assms(1,2,3) m by simp
  have analytics: "chartData_SessionAnalytics JSON_parse t toLocaleTimeString session = Inr ?apts"
    unfolding chartData_SessionAnalytics_def try_catch_def using assms(1,2,3) ma by simp
  have len: "length ?pts = length es" "length ?apts = length es" by simp_all
  have nth: "?pts ! i = ?g (es ! i) i" "?apts ! i = ?ga (es ! i) i" if "i < length es" for i
    using that by simp_all
  have mem: "get_member (es ! i) k = Inr (projr (get_member (es ! i) k))"
    if "i < length es" for i k
    using that assms(4) by (intro get_member_projr) auto
  have pt: "point_name (?pts ! i) = ''Turn '' @ number_to_string (i + 1) \<and>
              get_member (es ! i) ''input'' = Inr (point_input (?pts ! i)) \<and>
              get_member (es ! i) ''output'' = Inr (point_output (?pts ! i)) \<and>
              get_member (es ! i) ''total'' = Inr (point_total (?pts ! i))"
    if "i < length es" for i
    unfolding nth(1) [OF that] by (simp add: mem [OF that, symmetric])
  have apt: "point_name (?apts ! i) = t ''analytics.turn'' @ '' '' @ number_to_string (i + 1) \<and>
              (\<exists>a b c.
                 get_member (es ! i) ''input'' = Inr a \<and> point_input (?apts ! i) = or_zero a \<and>
                 get_member (es ! i) ''output'' = Inr b \<and> point_output (?apts ! i) = or_zero b \<and>
                 get_member (es ! i) ''total'' = Inr c \<and> point_total (?apts ! i) = or_zero c)"
    if "i < length es" for i
    unfolding nth(2) [OF that]
    apply (rule conjI, simp)
    apply (rule exI [of _ "projr (get_member (es ! i) ''input'')"])
    apply (rule exI [of _ "projr (get_member (es ! i) ''output'')"])
    apply (rule exI [of _ "projr (get_member (es ! i) ''total'')"])
    apply (simp add: mem [OF that, symmetric])
    done
  from pt have all_pt: "\<forall>i < length es.
              point_name (?pts ! i) = ''Turn '' @ number_to_string (i + 1) \<and>
              get_member (es ! i) ''input'' = Inr (point_input (?pts ! i)) \<and>
              get_member (es ! i) ''output'' = Inr (point_output (?pts ! i)) \<and>
              get_member (es ! i) ''total'' = Inr (point_total (?pts ! i))"
    by blast
  from apt have all_apt: "\<forall>i < length es.
              point_name (?apts ! i) = t ''analytics.turn'' @ '' '' @ number_to_string (i + 1) \<and>
              (\<exists>a b c.
                 get_member (es ! i) ''input'' = Inr a \<and> point_input (?apts ! i) = or_zero a \<and>
                 get_member (es ! i) ''output'' = Inr b \<and> point_output (?apts ! i) = or_zero b \<and>
                 get_member (es ! i) ''total'' = Inr c \<and> point_total (?apts ! i) = or_zero c)"
    by blast
  from stats len(1) all_pt analytics len(2) all_apt show ?thesis
    by (intro exI [of _ ?pts] exI [of _ ?apts] conjI)
qed

theorem chartData_points_witness:
  "chartData_SessionStats
     (\<lambda>s. if s = ''[{},7]'' then Some (JArr [JObj [], JNum 7]) else None) (\<lambda>v. Inr [])
     \<lparr>session_id = ''s1'', file_change_count = None, token_usage_history = Some ''[{},7]''\<rparr> =
   Inr [\<lparr>point_name = ''Turn 1'', point_input = JUndefined, point_output = JUndefined,
          point_total = JUndefined, point_time = []\<rparr>,
        \<lparr>point_name = ''Turn 2'', point_input = JUndefined, point_output = JUndefined,
          point_total = JUndefined, point_time = []\<rparr>] \<and>
   chartData_SessionAnalytics
     (\<lambda>s. if s = ''[{},7]'' then Some (JArr [JObj [], JNum 7]) else None) (\<lambda>k. ''Turn'') (\<lambda>v. Inr [])
     \<lparr>session_id = ''s1'', file_change_count = None, token_usage_history = Some ''[{},7]''\<rparr> =
   Inr [\<lparr>point_name = ''Turn 1'', point_input = JNum 0, point_output = JNum 0,
          point_total = JNum 0, point_time = []\<rparr>,
        \<lparr>point_name = ''Turn 2'', point_input = JNum 0, point_output = JNum 0,
          point_total = JNum 0, point_time = []\<rparr>]"
  using chartData_points [of
      "\<lparr>session_id = ''s1'', file_change_count = None, token_usage_history = Some ''[{},7]''\<rparr>"
      "''[{},7]''" "\<lambda>s. if s = ''[{},7]'' then Some (JArr [JObj [], JNum 7]) else None"
      "[JObj [], JNum 7]" "\<lambda>v. Inr []" "\<lambda>k. ''Turn''"]
  by (simp add: chartData_SessionStats_def chartData_SessionAnalytics_def try_catch_def
      point_SessionStats_def point_SessionAnalytics_def or_zero_def number_to_string.simps digit_char_def)

text \<open>
  The string \<open>[null]\<close> parses as an array of one entry; reading \<open>input\<close> from \<open>null\<close>
  throws inside the \<open>try\<close>, and both computations return no point at all.
\<close>

theorem chartData_null_entry_counterexample:
  "chartData_SessionStats
     (\<lambda>s. if s = ''[null]'' then Some (JArr [JNull]) else None) (\<lambda>v. Inr [])
     \<lparr>session_id = ''s1'', file_change_count = None, token_usage_history = Some ''[null]''\<rparr> =
   Inr [] \<and>
   chartData_SessionAnalytics
     (\<lambda>s. if s = ''[null]'' then Some (JArr [JNull]) else None) (\<lambda>k. ''Turn'') (\<lambda>v. Inr [])
     \<lparr>session_id = ''s1'', file_change_count = None, token_usage_history = Some ''[null]''\<rparr> =
   Inr []"
  by (simp add: chartData_SessionStats_def chartData_SessionAnalytics_def try_catch_def
      point_SessionStats_def point_SessionAnalytics_def)

text \<open>
  C5.  When \<open>token_usage_history\<close> is absent, or is a string that \<open>JSON.parse\<close> rejects
  (the empty string is one), both computations return the empty list, and they return
  it normally.
\<close>

theorem chartData_empty_on_absent_or_unparsable:
  assumes "token_usage_history session = None \<or>
           token_usage_history session = Some [] \<or>
           (\<exists>s. token_usage_history session = Some s \<and> JSON_parse s = None)"
  shows "chartData_SessionStats JSON_parse toLocaleTimeString session = Inr [] \<and>
         chartData_SessionAnalytics JSON_parse t toLocaleTimeString session = Inr []"
  using assms
  by (auto simp: chartData_SessionStats_def chartData_SessionAnalytics_def try_catch_def)

theorem chartData_empty_on_absent_or_unparsable_witness:
  "chartData_SessionStats (\<lambda>s. None) (\<lambda>v. Inr [])
     \<lparr>session_id = ''s1'', file_change_count = None, token_usage_history = None\<rparr> = Inr [] \<and>
   chartData_SessionAnalytics (\<lambda>s. None) (\<lambda>k. k) (\<lambda>v. Inr [])
     \<lparr>session_id = ''s1'', file_change_count = None, token_usage_history = None\<rparr> = Inr [] \<and>
   chartData_SessionStats (\<lambda>s. None) (\<lambda>v. Inr [])
     \<lparr>session_id = ''s1'', file_change_count = None, token_usage_history = Some ''[1,''\<rparr> = Inr [] \<and>
   chartData_SessionAnalytics (\<lambda>s. None) (\<lambda>k. k) (\<lambda>v. Inr [])
     \<lparr>session_id = ''s1'', file_change_count = None, token_usage_history = Some ''[1,''\<rparr> = Inr []"
  using chartData_empty_on_absent_or_unparsable [of
      "\<lparr>session_id = ''s1'', file_change_count = None, token_usage_history = None\<rparr>"
      "\<lambda>s. None" "\<lambda>v. Inr []" "\<lambda>k. k"]
    chartData_empty_on_absent_or_unparsable [of
      "\<lparr>session_id = ''s1'', file_change_count = None, token_usage_history = Some ''[1,''\<rparr>"
      "\<lambda>s. None" "\<lambda>v. Inr []" "\<lambda>k. k"]
  by simp


section \<open>Properties of the tag manager\<close>

text \<open>
  C6.  When the API call of \<open>handleAddTag\<close> or of \<open>handleRemoveTag\<close> is rejected, the
  state, and with it the tag list, stays as it is.  When the remove call is fulfilled,
  the tag list loses exactly the tags of the given name.  When the add call is
  fulfilled (the call is only made for a name that is not blank), one tag with the
  entered name is appended.
\<close>

theorem tag_updates_follow_api_outcome:
  "handleAddTag ws n now Rejected s = s \<and>
   handleRemoveTag tagName Rejected s = s \<and>
   tags (handleRemoveTag tagName Fulfilled s) = filter (\<lambda>t. tag_name t \<noteq> tagName) (tags s) \<and>
   (\<not> list_all ws n \<longrightarrow>
      tags (handleAddTag ws n now Fulfilled s) =
      tags s @ [\<lparr>tag_id = now, tag_name = n, color = ''blue''\<rparr>])"
  by (simp add: handleAddTag_def handleRemoveTag_def)

theorem tag_updates_follow_api_outcome_witness:
  "\<not> list_all (\<lambda>c. c = CHR '' '') ''bug'' \<and>
   tags (handleAddTag (\<lambda>c. c = CHR '' '') ''bug'' 1700000000000 Fulfilled
     \<lparr>tags = [\<lparr>tag_id = 1, tag_name = ''ui'', color = ''blue''\<rparr>], isAdding = True,
      newTagName = ''bug'', tagsChanged = 0\<rparr>) =
   [\<lparr>tag_id = 1, tag_name = ''ui'', color = ''blue''\<rparr>,
    \<lparr>tag_id = 1700000000000, tag_name = ''bug'', color = ''blue''\<rparr>] \<and>
   tags (handleRemoveTag ''ui'' Fulfilled
     \<lparr>tags = [\<lparr>tag_id = 1, tag_name = ''ui'', color = ''blue''\<rparr>], isAdding = True,
      newTagName = ''bug'', tagsChanged = 0\<rparr>) = []"
  using tag_updates_follow_api_outcome [of "\<lambda>c. c = CHR '' ''" "''bug''" 1700000000000
      "\<lparr>tags = [\<lparr>tag_id = 1, tag_name = ''ui'', color = ''blue''\<rparr>], isAdding = True,
      newTagName = ''bug'', tagsChanged = 0\<rparr>" "''ui''"]
  by simp


section \<open>Properties of the statistics loading\<close>

text \<open>
  C2.  Writing two results for different session ids gives the same result mapping in
  either order, and writing the same result for the same id twice gives the same
  mapping as writing it once; so for the result mapping of the component after the
  completions of \<open>loadOneShotStats\<close>.
\<close>

theorem result_application_commutes:
  "(a \<noteq> b \<longrightarrow>
      setOneShotStats_result (setOneShotStats_result m a x) b y =
      setOneShotStats_result (setOneShotStats_result m b y) a x \<and>
      oneShotStats (loadOneShotStats_fulfilled b y (loadOneShotStats_fulfilled a x s)) =
      oneShotStats (loadOneShotStats_fulfilled a x (loadOneShotStats_fulfilled b y s))) \<and>
   setOneShotStats_result (setOneShotStats_result m a x) a x = setOneShotStats_result m a x \<and>
   oneShotStats (loadOneShotStats_fulfilled a x (loadOneShotStats_fulfilled a x s)) =
   oneShotStats (loadOneShotStats_fulfilled a x s)"
  by (auto simp: setOneShotStats_result_def loadOneShotStats_fulfilled_def fun_upd_twist)

theorem result_application_commutes_witness:
  "''s1'' \<noteq> ''s2'' \<and>
   setOneShotStats_result (setOneShotStats_result Map.empty ''s1''
       \<lparr>overall_score = 80, file_count = 0, file_stats = []\<rparr>) ''s2''
       \<lparr>overall_score = 55, file_count = 0, file_stats = []\<rparr> =
   setOneShotStats_result (setOneShotStats_result Map.empty ''s2''
       \<lparr>overall_score = 55, file_count = 0, file_stats = []\<rparr>) ''s1''
       \<lparr>overall_score = 80, file_count = 0, file_stats = []\<rparr>"
  using result_application_commutes [of "''s1''" "''s2''" Map.empty
      "\<lparr>overall_score = 80, file_count = 0, file_stats = []\<rparr>"
      "\<lparr>overall_score = 55, file_count = 0, file_stats = []\<rparr>" initial]
  by simp

lemma requested_fold_loadOneShotStats:
  "requested (fold (\<lambda>x. loadOneShotStats r (session_id x)) xs s) =
   requested s @
   map session_id
     (filter (\<lambda>x. \<not> is_loading (loadingStats r) (session_id x) \<and>
                  \<not> has_stats (oneShotStats r) (session_id x)) xs)"
  by (induction xs arbitrary: s) (auto simp: loadOneShotStats_def)

text \<open>
  C3, as the code has it.  When the effect runs after loading has finished, with a
  non-empty session list and the trigger not yet set, it calls the loader for exactly
  the sessions whose \<open>file_change_count\<close> is present and greater than 0, and the loader
  issues a request for those of them that the render's mappings show neither as loading
  nor as loaded.  If the mappings show none of the sessions so, the requests are exactly
  those for the sessions with file changes.
\<close>

theorem autoCalc_requests:
  assumes "\<not> loading s" and "sessions s \<noteq> []" and "\<not> autoLoadTriggered s"
  shows "requested (autoCalc_effect s) =
           requested s @
           map session_id
             (filter (\<lambda>x. has_file_changes x \<and>
                          \<not> is_loading (loadingStats s) (session_id x) \<and>
                          \<not> has_stats (oneShotStats s) (session_id x)) (sessions s)) \<and>
         (\<forall>x. has_file_changes x \<longleftrightarrow> (\<exists>n. file_change_count x = Some n \<and> 0 < n)) \<and>
         ((\<forall>x \<in> set (sessions s). \<not> is_loading (loadingStats s) (session_id x) \<and>
                                  \<not> has_stats (oneShotStats s) (session_id x)) \<longrightarrow>
          requested (autoCalc_effect s) =
            requested s @ map session_id (filter has_file_changes (sessions s)))"
proof -
  have req: "requested (autoCalc_effect s) =
           requested s @
           map session_id
             (filter (\<lambda>x. has_file_changes x \<and>
                          \<not> is_loading (loadingStats s) (session_id x) \<and>
                          \<not> has_stats (oneShotStats s) (session_id x)) (sessions s))"
    using assms
    by (simp add: autoCalc_effect_def Let_def requested_fold_loadOneShotStats conj_commute
        cong: conj_cong)
  have chg: "has_file_changes x \<longleftrightarrow> (\<exists>n. file_change_count x = Some n \<and> 0 < n)" for x
    by (auto simp: has_file_changes_def split: option.splits)
  have "filter (\<lambda>x. has_file_changes x \<and>
                          \<not> is_loading (loadingStats s) (session_id x) \<and>
                          \<not> has_stats (oneShotStats s) (session_id x)) (sessions s) =
        filter has_file_changes (sessions s)"
    if "\<forall>x \<in> set (sessions s). \<not> is_loading (loadingStats s) (session_id x) \<and>
                                  \<not> has_stats (oneShotStats s) (session_id x)"
    using that by (intro filter_cong) auto
  with req chg show ?thesis by simp
qed

theorem autoCalc_requests_witness:
  "requested (autoCalc_effect
     (initial\<lparr>loading := False,
        sessions := [\<lparr>session_id = ''s1'', file_change_count = Some 2, token_usage_history = None\<rparr>,
                     \<lparr>session_id = ''s2'', file_change_count = None, token_usage_history = None\<rparr>,
                     \<lparr>session_id = ''s3'', file_change_count = Some 0, token_usage_history = None\<rparr>,
                     \<lparr>session_id = ''s4'', file_change_count = Some 1, token_usage_history = None\<rparr>]\<rparr>))
   = [''s1'', ''s4'']"
  using autoCalc_requests [of "initial\<lparr>loading := False,
        sessions := [\<lparr>session_id = ''s1'', file_change_count = Some 2, token_usage_history = None\<rparr>,
                     \<lparr>session_id = ''s2'', file_change_count = None, token_usage_history = None\<rparr>,
                     \<lparr>session_id = ''s3'', file_change_count = Some 0, token_usage_history = None\<rparr>,
                     \<lparr>session_id = ''s4'', file_change_count = Some 1, token_usage_history = None\<rparr>]\<rparr>"]
  by (simp add: initial_def has_file_changes_def is_loading_def has_stats_def
      object_prototype_keys_def)

text \<open>
  A project is opened, its session \<open>s1\<close> has two file changes and gets its statistics;
  another project is opened, then the first one again: its list finishes loading, and
  no request is made for \<open>s1\<close>, whose statistics the component still holds.
\<close>

theorem autoCalc_skips_loaded_counterexample:
  "has_file_changes \<lparr>session_id = ''s1'', file_change_count = Some 2, token_usage_history = None\<rparr> \<and>
   map_option requested
     (run [ProjectChanged,
           LoadThen [\<lparr>session_id = ''s1'', file_change_count = Some 2, token_usage_history = None\<rparr>],
           LoadFinally, AutoCalc] initial) = Some [''s1''] \<and>
   map_option requested
     (run [ProjectChanged,
           LoadThen [\<lparr>session_id = ''s1'', file_change_count = Some 2, token_usage_history = None\<rparr>],
           LoadFinally, AutoCalc,
           StatsFulfilled ''s1'' \<lparr>overall_score = 80, file_count = 0, file_stats = []\<rparr>,
           ProjectChanged,
           LoadThen [\<lparr>session_id = ''b1'', file_change_count = Some 0, token_usage_history = None\<rparr>],
           LoadFinally, AutoCalc,
           ProjectChanged,
           LoadThen [\<lparr>session_id = ''s1'', file_change_count = Some 2, token_usage_history = None\<rparr>],
           LoadFinally, AutoCalc] initial) = Some [''s1'']"
  by (simp add: initial_def has_file_changes_def is_loading_def has_stats_def
      object_prototype_keys_def autoCalc_effect_def loadOneShotStats_def
      initialLoad_effect_def initialLoad_then_def initialLoad_finally_def
      loadOneShotStats_fulfilled_def setOneShotStats_result_def)

lemma loadOneShotStats_inv:
  assumes "stats_inv s"
    and "\<not> is_loading (loadingStats r) k \<and> \<not> has_stats (oneShotStats r) k \<longrightarrow>
           k \<notin> set (inflight s) \<and> k \<notin> set (written s)"
  shows "stats_inv (loadOneShotStats r k s)"
  using assms by (auto simp: stats_inv_def loadOneShotStats_def)

lemma loadOneShotStats_inflight:
  "set (inflight (loadOneShotStats r k s)) \<subseteq> insert k (set (inflight s))"
  by (auto simp: loadOneShotStats_def)

lemma loadOneShotStats_written: "written (loadOneShotStats r k s) = written s"
  by (auto simp: loadOneShotStats_def)

lemma batch_inv:
  assumes "stats_inv s" and "distinct ks"
    and "\<forall>k \<in> set ks. \<not> is_loading (loadingStats r) k \<and> \<not> has_stats (oneShotStats r) k \<longrightarrow>
           k \<notin> set (inflight s) \<and> k \<notin> set (written s)"
  shows "stats_inv (fold (loadOneShotStats r) ks s)"
  using assms
proof (induction ks arbitrary: s)
  case Nil
  then show ?case by simp
next
  case (Cons k ks)
  have "stats_inv (loadOneShotStats r k s)"
    using Cons.prems by (intro loadOneShotStats_inv) auto
  moreover have "\<forall>k' \<in> set ks.
      \<not> is_loading (loadingStats r) k' \<and> \<not> has_stats (oneShotStats r) k' \<longrightarrow>
      k' \<notin> set (inflight (loadOneShotStats r k s)) \<and> k' \<notin> set (written (loadOneShotStats r k s))"
    using Cons.prems loadOneShotStats_inflight [of r k s]
    by (auto simp: loadOneShotStats_written)
  moreover from Cons.prems have "distinct ks" by simp
  ultimately show ?case
    using Cons.IH by simp
qed

lemma fresh_of_inv:
  assumes "stats_inv s" "\<not> is_loading (loadingStats s) k" "\<not> has_stats (oneShotStats s) k"
  shows "k \<notin> set (inflight s) \<and> k \<notin> set (written s)"
  using assms by (auto simp: stats_inv_def is_loading_def has_stats_def split: option.splits)

lemma stats_inv_trigger: "stats_inv (s\<lparr>autoLoadTriggered := b\<rparr>) = stats_inv s"
  by (simp add: stats_inv_def)

lemma autoCalc_inv:
  assumes "stats_inv s"
  shows "stats_inv (autoCalc_effect s)"
proof (cases "\<not> loading s \<and> length (sessions s) > 0 \<and> \<not> autoLoadTriggered s")
  case False
  with assms show ?thesis by (auto simp: autoCalc_effect_def)
next
  case True
  let ?ks = "map session_id (filter has_file_changes (sessions s))"
  let ?s = "s\<lparr>autoLoadTriggered := True\<rparr>"
  have eq: "autoCalc_effect s = fold (loadOneShotStats s) ?ks ?s"
    using True by (simp add: autoCalc_effect_def Let_def fold_map comp_def)
  from assms have "distinct ?ks"
    by (simp add: stats_inv_def distinct_map_filter)
  moreover have "stats_inv ?s" using assms by (simp add: stats_inv_trigger)
  moreover have "\<forall>k \<in> set ?ks.
      \<not> is_loading (loadingStats s) k \<and> \<not> has_stats (oneShotStats s) k \<longrightarrow>
      k \<notin> set (inflight ?s) \<and> k \<notin> set (written ?s)"
    using fresh_of_inv [OF assms] by simp
  ultimately show ?thesis
    unfolding eq by (intro batch_inv)
qed

lemma step_inv:
  assumes "stats_inv s" "unique_ids e" "step e s = Some s'"
  shows "stats_inv s'"
proof (cases e)
  case AutoCalc
  with assms autoCalc_inv show ?thesis by auto
next
  case (RetryClick k)
  with assms fresh_of_inv [OF assms(1), of k] show ?thesis
    by (auto intro: loadOneShotStats_inv)
next
  case (StatsFulfilled k st)
  with assms show ?thesis
    by (auto simp: stats_inv_def loadOneShotStats_fulfilled_def setOneShotStats_result_def
        split: if_splits dest: notin_set_remove1)
next
  case (StatsRejected k)
  with assms show ?thesis
    by (auto simp: stats_inv_def loadOneShotStats_rejected_def
        split: if_splits dest: notin_set_remove1)
qed (use assms in \<open>auto simp: stats_inv_def initialLoad_effect_def initialLoad_then_def
      initialLoad_catch_def initialLoad_finally_def\<close>)

lemma run_inv:
  assumes "stats_inv s" "\<forall>e \<in> set evs. unique_ids e" "run evs s = Some s'"
  shows "stats_inv s'"
  using assms
proof (induction evs arbitrary: s)
  case Nil
  then show ?case by simp
next
  case (Cons e evs)
  from Cons.prems(3) obtain s1 where s1: "step e s = Some s1" "run evs s1 = Some s'"
    by (auto split: option.splits)
  from Cons.prems(1,2) s1(1) have "stats_inv s1" by (auto intro: step_inv)
  with Cons.IH Cons.prems(2) s1(2) show ?case by auto
qed

lemma distinct_count_list_le_1: "distinct xs \<Longrightarrow> count_list xs k \<le> 1"
  by (induction xs) auto

lemma stats_inv_initial: "stats_inv initial"
  by (simp add: stats_inv_def initial_def)

text \<open>
  C7, as the code has it.  A call of the loader whose render shows statistics for the id
  in the result mapping, or the loading flag of the id set, performs no request and
  changes nothing.  The calls of one \<open>forEach\<close> share the render, so the guard does not
  see the requests made earlier in the same loop; when no delivered session list repeats
  an id, no result is written twice for a session key, whatever the events.
\<close>

theorem loader_guard_and_single_write:
  "((oneShotStats render sessionId \<noteq> None \<or> loadingStats render sessionId = Some True) \<longrightarrow>
      loadOneShotStats render sessionId s = s) \<and>
   (run evs initial = Some s' \<and> (\<forall>e \<in> set evs. unique_ids e) \<longrightarrow>
      count_list (written s') k \<le> 1)"
proof -
  have guard: "loadOneShotStats render sessionId s = s"
    if "oneShotStats render sessionId \<noteq> None \<or> loadingStats render sessionId = Some True"
    using that by (auto simp: loadOneShotStats_def is_loading_def has_stats_def)
  have once: "count_list (written s') k \<le> 1"
    if "run evs initial = Some s'" "\<forall>e \<in> set evs. unique_ids e"
  proof -
    from stats_inv_initial that(2,1) have "stats_inv s'" by (rule run_inv)
    then have "distinct (written s')" by (simp add: stats_inv_def)
    then show ?thesis by (rule distinct_count_list_le_1)
  qed
  from guard once show ?thesis by blast
qed

theorem loader_guard_and_single_write_witness:
  "loadOneShotStats
     (initial\<lparr>oneShotStats := [''s1'' \<mapsto> \<lparr>overall_score = 80, file_count = 0, file_stats = []\<rparr>]\<rparr>)
     ''s1'' initial = initial \<and>
   written (the (run
     [ProjectChanged,
      LoadThen [\<lparr>session_id = ''s1'', file_change_count = Some 2, token_usage_history = None\<rparr>,
                \<lparr>session_id = ''s2'', file_change_count = Some 1, token_usage_history = None\<rparr>],
      LoadFinally, AutoCalc,
      StatsFulfilled ''s1'' \<lparr>overall_score = 80, file_count = 0, file_stats = []\<rparr>,
      StatsRejected ''s2'', RetryClick ''s2'', RetryClick ''s1'',
      StatsFulfilled ''s2'' \<lparr>overall_score = 55, file_count = 0, file_stats = []\<rparr>] initial)) =
     [''s1'', ''s2''] \<and>
   count_list (written (the (run
     [ProjectChanged,
      LoadThen [\<lparr>session_id = ''s1'', file_change_count = Some 2, token_usage_history = None\<rparr>,
                \<lparr>session_id = ''s2'', file_change_count = Some 1, token_usage_history = None\<rparr>],
      LoadFinally, AutoCalc,
      StatsFulfilled ''s1'' \<lparr>overall_score = 80, file_count = 0, file_stats = []\<rparr>,
      StatsRejected ''s2'', RetryClick ''s2'', RetryClick ''s1'',
      StatsFulfilled ''s2'' \<lparr>overall_score = 55, file_count = 0, file_stats = []\<rparr>] initial)))
     ''s1'' \<le> 1"
  using loader_guard_and_single_write [of
     "initial\<lparr>oneShotStats := [''s1'' \<mapsto> \<lparr>overall_score = 80, file_count = 0, file_stats = []\<rparr>]\<rparr>"
     "''s1''" initial
     "[ProjectChanged,
      LoadThen [\<lparr>session_id = ''s1'', file_change_count = Some 2, token_usage_history = None\<rparr>,
                \<lparr>session_id = ''s2'', file_change_count = Some 1, token_usage_history = None\<rparr>],
      LoadFinally, AutoCalc,
      StatsFulfilled ''s1'' \<lparr>overall_score = 80, file_count = 0, file_stats = []\<rparr>,
      StatsRejected ''s2'', RetryClick ''s2'', RetryClick ''s1'',
      StatsFulfilled ''s2'' \<lparr>overall_score = 55, file_count = 0, file_stats = []\<rparr>]"
     "the (run
     [ProjectChanged,
      LoadThen [\<lparr>session_id = ''s1'', file_change_count = Some 2, token_usage_history = None\<rparr>,
                \<lparr>session_id = ''s2'', file_change_count = Some 1, token_usage_history = None\<rparr>],
      LoadFinally, AutoCalc,
      StatsFulfilled ''s1'' \<lparr>overall_score = 80, file_count = 0, file_stats = []\<rparr>,
      StatsRejected ''s2'', RetryClick ''s2'', RetryClick ''s1'',
      StatsFulfilled ''s2'' \<lparr>overall_score = 55, file_count = 0, file_stats = []\<rparr>] initial)"
     "''s1''"]
  by (simp add: initial_def has_file_changes_def is_loading_def has_stats_def
      object_prototype_keys_def autoCalc_effect_def loadOneShotStats_def
      initialLoad_effect_def initialLoad_then_def initialLoad_finally_def
      loadOneShotStats_fulfilled_def loadOneShotStats_rejected_def setOneShotStats_result_def)

text \<open>
  A session list that repeats the id \<open>s1\<close>: after the first call of the loop the loading
  flag of \<open>s1\<close> is set, the second call (same render) still makes a request, and the
  two requests write two results for the key \<open>s1\<close>.
\<close>

theorem repeated_id_two_writes_counterexample:
  "loadingStats
     (loadOneShotStats
        (initial\<lparr>loading := False,
           sessions := [\<lparr>session_id = ''s1'', file_change_count = Some 2, token_usage_history = None\<rparr>,
                        \<lparr>session_id = ''s1'', file_change_count = Some 2, token_usage_history = None\<rparr>]\<rparr>)
        ''s1''
        (initial\<lparr>loading := False,
           sessions := [\<lparr>session_id = ''s1'', file_change_count = Some 2, token_usage_history = None\<rparr>,
                        \<lparr>session_id = ''s1'', file_change_count = Some 2, token_usage_history = None\<rparr>]\<rparr>))
     ''s1'' = Some True \<and>
   map_option requested
     (run [ProjectChanged,
           LoadThen [\<lparr>session_id = ''s1'', file_change_count = Some 2, token_usage_history = None\<rparr>,
                     \<lparr>session_id = ''s1'', file_change_count = Some 2, token_usage_history = None\<rparr>],
           LoadFinally, AutoCalc] initial) = Some [''s1'', ''s1''] \<and>
   map_option written
     (run [ProjectChanged,
           LoadThen [\<lparr>session_id = ''s1'', file_change_count = Some 2, token_usage_history = None\<rparr>,
                     \<lparr>session_id = ''s1'', file_change_count = Some 2, token_usage_history = None\<rparr>],
           LoadFinally, AutoCalc,
           StatsFulfilled ''s1'' \<lparr>overall_score = 80, file_count = 0, file_stats = []\<rparr>,
           StatsFulfilled ''s1'' \<lparr>overall_score = 80, file_count = 0, file_stats = []\<rparr>] initial) =
     Some [''s1'', ''s1'']"
  by (simp add: initial_def has_file_changes_def is_loading_def has_stats_def
      object_prototype_keys_def autoCalc_effect_def loadOneShotStats_def
      initialLoad_effect_def initialLoad_then_def initialLoad_finally_def
      loadOneShotStats_fulfilled_def setOneShotStats_result_def)

end
